theory Spec2Isabelle
  imports Main "HOL-Library.Signed_Division"
begin

section \<open>Data model of player.go\<close>

text \<open>
  The structs of \<^verbatim>\<open>player.go\<close> become records and the \<^verbatim>\<open>PlayerState\<close> enumeration a
  datatype. Go's \<^verbatim>\<open>int\<close> and \<^verbatim>\<open>time.Duration\<close> are 64-bit signed integers: they are
  modelled as \<^typ>\<open>int\<close>, and every arithmetic operation of the source that can leave
  the 64-bit range is wrapped by \<open>wrap64\<close>.

  The field \<^verbatim>\<open>Format\<close> of \<^verbatim>\<open>Track\<close> is called \<open>TrackFormat\<close> here, since the
  \<^verbatim>\<open>Player\<close> struct has a field \<^verbatim>\<open>Format\<close> of its own.
\<close>

definition wrap64 :: "int \<Rightarrow> int" where
  "wrap64 x = (x + 2 ^ 63) mod 2 ^ 64 - 2 ^ 63"

record Track =
  Path :: string
  Title :: string
  Artist :: string
  Album :: string
  Duration :: int
  TrackFormat :: string

datatype PlayerState = Stopped | Playing | Paused

text \<open>
  The collaborators of the \<^verbatim>\<open>beep\<close> library. A \<^verbatim>\<open>beep.StreamSeeker\<close> is observed by
  the player only through \<^verbatim>\<open>Position()\<close> and \<^verbatim>\<open>Len()\<close>; a \<^verbatim>\<open>beep.Format\<close> is a
  struct of three integers; a \<^verbatim>\<open>beep.Ctrl\<close> is a struct holding a streamer and the
  \<^verbatim>\<open>Paused\<close> flag. The player holds a pointer to its \<^verbatim>\<open>Ctrl\<close>, \<^verbatim>\<open>nil\<close> being \<open>None\<close>.
  The resampler \<^verbatim>\<open>beep.ResampleRatio(4, 1.0, streamer)\<close> that \<^verbatim>\<open>Play\<close> wraps around
  the streamer has ratio one and is represented by the streamer itself.
\<close>

record StreamSeeker =
  Position :: int
  Len :: int

record BeepFormat =
  SampleRate :: int
  NumChannels :: int
  Precision :: int

record BeepCtrl =
  CtrlStreamer :: StreamSeeker
  CtrlPaused :: bool

record Player =
  MusicDir :: string
  Tracks :: "Track list"
  CurrentTrack :: int
  State :: PlayerState
  Repeat :: bool
  Shuffle :: bool
  SearchQuery :: string
  FilteredTracks :: "Track list"
  Streamer :: "StreamSeeker option"
  Ctrl :: "BeepCtrl option"
  Format :: BeepFormat
  LoadedTrack :: int

text \<open>
  Go errors are values with a message. \<open>ErrorNew\<close> is an error made from a text alone
  (\<^verbatim>\<open>fmt.Errorf\<close> without a verb, \<^verbatim>\<open>errors.New\<close>), \<open>ErrorWrap\<close> is
  \<^verbatim>\<open>fmt.Errorf(prefix + "%w", err)\<close>, and \<open>PathError\<close> is the \<^verbatim>\<open>*fs.PathError\<close> that
  \<^verbatim>\<open>os.Open\<close> returns: the operation, the path and the text of the system error.
  \<open>Error\<close> is the method \<^verbatim>\<open>Error()\<close>, the message.
\<close>

datatype error =
    ErrorNew string
  | ErrorWrap string error
  | PathError string string string

fun Error :: "error \<Rightarrow> string" where
  "Error (ErrorNew s) = s"
| "Error (ErrorWrap pre e) = pre @ Error e"
| "Error (PathError opn path e) = opn @ '' '' @ path @ '': '' @ e"

text \<open>A run-time panic of the Go program ends the call without a result.\<close>

datatype panic = IndexOutOfRange | NilPointerDereference | IntegerDivideByZero

section \<open>Strings (package strings)\<close>

text \<open>
  Go strings are byte sequences, as \<^typ>\<open>string\<close> is. \<^verbatim>\<open>strings.ToLower\<close> maps every
  letter by the Unicode tables, which are no part of this repository. The source calls
  it in two ways, and the model follows each.

  In \<^verbatim>\<open>Search\<close> it is applied to the query and to the title, the artist and the album,
  which can be any text. There it is the parameter \<open>lower\<close> of \<open>Search\<close>, so that what
  is proved of \<open>Search\<close> holds whatever the lower-casing function is.

  In \<^verbatim>\<open>loadTrack\<close> and in \<^verbatim>\<open>ScanMusicFiles\<close> the lowered extension is only compared
  with \<^verbatim>\<open>.mp3\<close>, \<^verbatim>\<open>.wav\<close> and the other extensions of the allow-list. \<open>ToLower\<close>
  moves the bytes \<^verbatim>\<open>A\<close> to \<^verbatim>\<open>Z\<close> to \<^verbatim>\<open>a\<close> to \<^verbatim>\<open>z\<close> and keeps every other byte;
  that is \<^verbatim>\<open>strings.ToLower\<close> on ASCII text. No letter outside ASCII has one of the
  letters of these extensions as its lower case, so the comparisons come out the same
  for every path. \<open>ToLower\<close> is also the lower-casing function that the examples of
  \<open>Search\<close> run with.

  \<open>HasPrefix\<close> and \<open>Contains\<close> are \<^verbatim>\<open>strings.HasPrefix\<close> and
  \<^verbatim>\<open>strings.Contains\<close>: the search for the first position at which the substring starts.
\<close>

definition lower_byte :: "char \<Rightarrow> char" where
  "lower_byte c =
     (let n = (of_char c :: nat) in if 65 \<le> n \<and> n \<le> 90 then char_of (n + 32) else c)"

definition ToLower :: "string \<Rightarrow> string" where
  "ToLower s = map lower_byte s"

fun HasPrefix :: "string \<Rightarrow> string \<Rightarrow> bool" where
  "HasPrefix s [] = True"
| "HasPrefix [] (c # cs) = False"
| "HasPrefix (x # xs) (c # cs) = (x = c \<and> HasPrefix xs cs)"

fun Contains :: "string \<Rightarrow> string \<Rightarrow> bool" where
  "Contains [] substr = (substr = [])"
| "Contains (x # xs) substr = (HasPrefix (x # xs) substr \<or> Contains xs substr)"

section \<open>Search\<close>

text \<open>
  The body of the \<^verbatim>\<open>range\<close> loop of \<^verbatim>\<open>Search\<close>: the query has been lowered before the
  loop, the three fields are lowered at each track. \<open>lower\<close> is \<^verbatim>\<open>strings.ToLower\<close>.
\<close>

definition track_matches :: "(string \<Rightarrow> string) \<Rightarrow> string \<Rightarrow> Track \<Rightarrow> bool" where
  "track_matches lower query track =
     (Contains (lower (Title track)) query \<or>
      Contains (lower (Artist track)) query \<or>
      Contains (lower (Album track)) query)"

fun search_loop ::
    "(string \<Rightarrow> string) \<Rightarrow> string \<Rightarrow> Track list \<Rightarrow> Track list \<Rightarrow> Track list" where
  "search_loop lower query [] filtered = filtered"
| "search_loop lower query (track # rest) filtered =
     search_loop lower query rest
       (if track_matches lower query track then filtered @ [track] else filtered)"

definition Search :: "(string \<Rightarrow> string) \<Rightarrow> string \<Rightarrow> Player \<Rightarrow> Player" where
  "Search lower query p =
     (let p1 = p\<lparr>SearchQuery := query\<rparr> in
      if query = [] then p1\<lparr>FilteredTracks := Tracks p1\<rparr>
      else p1\<lparr>FilteredTracks := search_loop lower (lower query) (Tracks p1) []\<rparr>)"

section \<open>Paths (package path/filepath, Unix)\<close>

text \<open>
  \<open>Ext\<close> is \<^verbatim>\<open>filepath.Ext\<close>: the suffix of the path that starts at the last dot of
  its last element, empty when that element has no dot. The Go loop walks from the end
  of the path down to the first separator.
\<close>

definition Separator :: char where
  "Separator = CHR ''/''"

definition Ext :: "string \<Rightarrow> string" where
  "Ext path =
     (let elem = takeWhile (\<lambda>c. c \<noteq> Separator) (rev path) in
      if CHR ''.'' \<in> set elem
      then CHR ''.'' # rev (takeWhile (\<lambda>c. c \<noteq> CHR ''.'') elem)
      else [])"

section \<open>Loading a track\<close>

text \<open>
  The file system and the decoders are collaborators outside the repository. They are
  the parameter \<open>env\<close> of the operations that reach them: \<open>OsOpen\<close> opens a path and
  gives a file handle or the text of the system error, \<open>Mp3Decode\<close> and \<open>WavDecode\<close>
  are \<^verbatim>\<open>mp3.Decode\<close> and \<^verbatim>\<open>wav.Decode\<close> on an open file.
  \<open>os_Open\<close> is \<^verbatim>\<open>os.Open\<close>, whose error is always a \<^verbatim>\<open>*PathError\<close> with the
  operation \<^verbatim>\<open>open\<close> and the path.
\<close>

record 'f Env =
  OsOpen :: "string \<Rightarrow> string + 'f"
  Mp3Decode :: "'f \<Rightarrow> error + StreamSeeker \<times> BeepFormat"
  WavDecode :: "'f \<Rightarrow> error + StreamSeeker \<times> BeepFormat"

definition os_Open :: "'f Env \<Rightarrow> string \<Rightarrow> error + 'f" where
  "os_Open env path =
     (case OsOpen env path of
        Inl e \<Rightarrow> Inl (PathError ''open'' path e)
      | Inr file \<Rightarrow> Inr file)"

definition loadTrack :: "'f Env \<Rightarrow> string \<Rightarrow> error + StreamSeeker \<times> BeepFormat" where
  "loadTrack env path =
     (case os_Open env path of
        Inl err \<Rightarrow> Inl err
      | Inr file \<Rightarrow>
          (let ext = ToLower (Ext path) in
           if ext = ''.mp3'' then Mp3Decode env file
           else if ext = ''.wav'' then WavDecode env file
           else Mp3Decode env file))"

section \<open>Transport operations\<close>

text \<open>
  An operation that returns an \<^verbatim>\<open>error\<close> has mutated the player by the time it
  returns, also when the error is not \<^verbatim>\<open>nil\<close>. Its result is therefore either a panic
  or the triple of the returned error (\<open>None\<close> for \<^verbatim>\<open>nil\<close>), the player after the call,
  and the list of the paths that were handed to \<^verbatim>\<open>loadTrack\<close> during the call, in
  order. The last component is a record of the calls to the decode collaborator; the
  source has no such value. \<^verbatim>\<open>speaker.Play(p.Ctrl)\<close> hands the control handle to the
  output sink, which lies outside the player: what the player keeps of it is the handle
  with its \<^verbatim>\<open>Paused\<close> flag.
\<close>

type_synonym Outcome = "panic + error option \<times> Player \<times> string list"

definition pause_ctrl :: "bool \<Rightarrow> Player \<Rightarrow> Player" where
  \<comment> \<open>\<^verbatim>\<open>p.Ctrl.Paused = b\<close> behind the test \<^verbatim>\<open>p.Ctrl != nil\<close>\<close>
  "pause_ctrl b p =
     (case Ctrl p of
        None \<Rightarrow> p
      | Some c \<Rightarrow> p\<lparr>Ctrl := Some (c\<lparr>CtrlPaused := b\<rparr>)\<rparr>)"

definition reset_index :: "Player \<Rightarrow> Player" where
  \<comment> \<open>\<^verbatim>\<open>if p.CurrentTrack >= len(p.FilteredTracks) { p.CurrentTrack = 0 }\<close>\<close>
  "reset_index p =
     (if CurrentTrack p \<ge> int (length (FilteredTracks p)) then p\<lparr>CurrentTrack := 0\<rparr> else p)"

definition Play :: "'f Env \<Rightarrow> Player \<Rightarrow> Outcome" where
  "Play env p0 =
     (if length (FilteredTracks p0) = 0 then Inr (Some (ErrorNew ''no songs found''), p0, [])
      else
        let p = reset_index p0 in
        if State p = Paused \<and> Streamer p \<noteq> None \<and> LoadedTrack p = CurrentTrack p then
          (case Ctrl p of
             None \<Rightarrow> Inl NilPointerDereference
           | Some c \<Rightarrow>
               Inr (None, p\<lparr>Ctrl := Some (c\<lparr>CtrlPaused := False\<rparr>), State := Playing\<rparr>, []))
        else if State p = Playing \<and> Streamer p \<noteq> None \<and> LoadedTrack p = CurrentTrack p then
          Inr (None, p, [])
        else if CurrentTrack p < 0 then Inl IndexOutOfRange
        else
          let track = FilteredTracks p ! nat (CurrentTrack p);
              p1 = pause_ctrl True p
          in
          (case loadTrack env (Path track) of
             Inl err \<Rightarrow>
               Inr (Some (ErrorWrap (''can'' @ [CHR 0x27] @ ''t load song: '') err), p1,
                    [Path track])
           | Inr (streamer, format) \<Rightarrow>
               Inr (None,
                    p1\<lparr>Streamer := Some streamer,
                       Format := format,
                       Ctrl := Some \<lparr>CtrlStreamer = streamer, CtrlPaused = False\<rparr>,
                       LoadedTrack := CurrentTrack p1,
                       State := Playing\<rparr>,
                    [Path track])))"

definition Pause :: "Player \<Rightarrow> Player" where
  "Pause p =
     (case Ctrl p of
        None \<Rightarrow> p
      | Some c \<Rightarrow>
          if State p = Playing
          then p\<lparr>Ctrl := Some (c\<lparr>CtrlPaused := True\<rparr>), State := Paused\<rparr>
          else p)"

definition Resume :: "Player \<Rightarrow> Player" where
  "Resume p =
     (case Ctrl p of
        None \<Rightarrow> p
      | Some c \<Rightarrow>
          if State p = Paused
          then p\<lparr>Ctrl := Some (c\<lparr>CtrlPaused := False\<rparr>), State := Playing\<rparr>
          else p)"

definition Stop :: "Player \<Rightarrow> Player" where
  "Stop p = (pause_ctrl True p)\<lparr>State := Stopped, LoadedTrack := - 1\<rparr>"

definition NextTrack :: "'f Env \<Rightarrow> Player \<Rightarrow> Outcome" where
  "NextTrack env p0 =
     (if length (FilteredTracks p0) = 0 then Inr (Some (ErrorNew ''no songs''), p0, [])
      else
        let p = p0\<lparr>CurrentTrack := wrap64 (CurrentTrack p0 + 1)\<rparr> in
        if CurrentTrack p \<ge> int (length (FilteredTracks p)) then
          (if Repeat p then Play env (p\<lparr>CurrentTrack := 0\<rparr>)
           else Inr (Some (ErrorNew ''at the end''),
                     p\<lparr>CurrentTrack := int (length (FilteredTracks p)) - 1\<rparr>, []))
        else Play env p)"

definition PreviousTrack :: "'f Env \<Rightarrow> Player \<Rightarrow> Outcome" where
  "PreviousTrack env p0 =
     (if length (FilteredTracks p0) = 0 then Inr (Some (ErrorNew ''no songs''), p0, [])
      else
        let p = p0\<lparr>CurrentTrack := wrap64 (CurrentTrack p0 - 1)\<rparr> in
        if CurrentTrack p < 0 then
          (if Repeat p then Play env (p\<lparr>CurrentTrack := int (length (FilteredTracks p)) - 1\<rparr>)
           else Inr (Some (ErrorNew ''at the beginning''), p\<lparr>CurrentTrack := 0\<rparr>, []))
        else Play env p)"

definition ToggleRepeat :: "Player \<Rightarrow> Player" where
  "ToggleRepeat p = p\<lparr>Repeat := \<not> Repeat p\<rparr>"

definition ToggleShuffle :: "Player \<Rightarrow> Player" where
  "ToggleShuffle p = p\<lparr>Shuffle := \<not> Shuffle p\<rparr>"

section \<open>Queries\<close>

text \<open>
  \<^verbatim>\<open>GetCurrentTrack\<close> returns a pointer into the view or \<^verbatim>\<open>nil\<close>; indexing with a
  negative index panics. \<open>SampleRate_D\<close> is \<^verbatim>\<open>beep.SampleRate.D\<close>, that is
  \<^verbatim>\<open>time.Second * time.Duration(n) / time.Duration(sr)\<close> in 64-bit arithmetic: the
  product wraps, the quotient truncates towards zero, and a sample rate of zero panics.
\<close>

definition GetCurrentTrack :: "Player \<Rightarrow> panic + Track option" where
  "GetCurrentTrack p =
     (if length (FilteredTracks p) = 0 \<or> CurrentTrack p \<ge> int (length (FilteredTracks p))
      then Inr None
      else if CurrentTrack p < 0 then Inl IndexOutOfRange
      else Inr (Some (FilteredTracks p ! nat (CurrentTrack p))))"

definition SampleRate_D :: "int \<Rightarrow> int \<Rightarrow> panic + int" where
  "SampleRate_D sr n =
     (if sr = 0 then Inl IntegerDivideByZero
      else Inr (wrap64 (wrap64 (1000000000 * n) sdiv sr)))"

definition GetPosition :: "Player \<Rightarrow> panic + int" where
  "GetPosition p =
     (case Streamer p of
        None \<Rightarrow> Inr 0
      | Some s \<Rightarrow> SampleRate_D (SampleRate (Format p)) (Position s))"

definition GetLength :: "Player \<Rightarrow> panic + int" where
  "GetLength p =
     (case Streamer p of
        None \<Rightarrow> Inr 0
      | Some s \<Rightarrow> SampleRate_D (SampleRate (Format p)) (Len s))"

section \<open>Scanning: metadata from the path\<close>

text \<open>
  The functions of \<^verbatim>\<open>strings\<close> and \<^verbatim>\<open>path/filepath\<close> that \<^verbatim>\<open>extractMetadata\<close> calls, for
  the Unix separator. \<open>Split_sep s c\<close> is \<^verbatim>\<open>strings.Split(s, string(c))\<close>, which
  returns one element more than there are separators in \<open>s\<close>; \<open>Join_sep\<close> is
  \<^verbatim>\<open>strings.Join(elems, "/")\<close>. \<open>Base\<close> is \<^verbatim>\<open>filepath.Base\<close>: trailing separators are
  removed, then everything up to the last separator.

  \<open>Clean\<close> is \<^verbatim>\<open>filepath.Clean\<close>, read element by element as its documentation states
  it: empty elements and \<^verbatim>\<open>.\<close> elements are dropped; a \<^verbatim>\<open>..\<close> element removes the
  element before it when there is one that is not \<^verbatim>\<open>..\<close> itself, is dropped at the
  root of a rooted path, and is kept otherwise; the result of an empty path is \<^verbatim>\<open>.\<close>.
  \<open>Dir\<close> is \<^verbatim>\<open>filepath.Dir\<close>: \<open>Clean\<close> of the path up to and including its last
  separator.
\<close>

definition HasSuffix :: "string \<Rightarrow> string \<Rightarrow> bool" where
  "HasSuffix s suffix = HasPrefix (rev s) (rev suffix)"

definition TrimSuffix :: "string \<Rightarrow> string \<Rightarrow> string" where
  "TrimSuffix s suffix =
     (if HasSuffix s suffix then take (length s - length suffix) s else s)"

fun Split_sep :: "string \<Rightarrow> char \<Rightarrow> string list" where
  "Split_sep [] sep = [[]]"
| "Split_sep (c # cs) sep =
     (if c = sep then [] # Split_sep cs sep
      else (case Split_sep cs sep of
              [] \<Rightarrow> [[c]]
            | x # xs \<Rightarrow> (c # x) # xs))"

fun Join_sep :: "string list \<Rightarrow> string" where
  "Join_sep [] = []"
| "Join_sep [x] = x"
| "Join_sep (x # y # ys) = x @ Separator # Join_sep (y # ys)"

definition Base :: "string \<Rightarrow> string" where
  "Base path =
     (if path = [] then ''.''
      else
        let p = rev (dropWhile (\<lambda>c. c = Separator) (rev path));
            e = rev (takeWhile (\<lambda>c. c \<noteq> Separator) (rev p))
        in if e = [] then [Separator] else e)"

definition clean_step :: "bool \<Rightarrow> string list \<Rightarrow> string \<Rightarrow> string list" where
  "clean_step rooted out elem =
     (if elem = [] \<or> elem = ''.'' then out
      else if elem = ''..'' then
        (if out \<noteq> [] \<and> last out \<noteq> ''..'' then butlast out
         else if rooted then out
         else out @ [''..''])
      else out @ [elem])"

definition Clean :: "string \<Rightarrow> string" where
  "Clean path =
     (if path = [] then ''.''
      else
        let rooted = (hd path = Separator);
            out = foldl (clean_step rooted) [] (Split_sep path Separator);
            s = (if rooted then [Separator] else []) @ Join_sep out
        in if s = [] then ''.'' else s)"

definition Dir :: "string \<Rightarrow> string" where
  "Dir path = Clean (rev (dropWhile (\<lambda>c. c \<noteq> Separator) (rev path)))"

text \<open>
  \<^verbatim>\<open>filepath.Rel\<close> is a function of the standard library, not of the repository. It is
  the parameter \<open>rel\<close> of \<open>extractMetadata\<close>; the source drops its error, and then the
  relative path is the empty string.
\<close>

definition extractMetadata ::
    "(string \<Rightarrow> string \<Rightarrow> error + string) \<Rightarrow> Player \<Rightarrow> Track \<Rightarrow> Track" where
  "extractMetadata rel p track0 =
     (let baseName = Base (Path track0);
          ext = Ext baseName;
          track = track0\<lparr>Title := TrimSuffix baseName ext\<rparr>;
          relPath = (case rel (MusicDir p) (Path track) of Inl err \<Rightarrow> [] | Inr r \<Rightarrow> r);
          parts = Split_sep (Dir relPath) Separator
      in
      if length parts \<ge> 2 then track\<lparr>Artist := parts ! 0, Album := parts ! 1\<rparr>
      else if length parts = 1 \<and> parts ! 0 \<noteq> ''.'' then track\<lparr>Artist := parts ! 0\<rparr>
      else track)"

text \<open>
  \<open>formats\<close> is the map of the playable extensions (a key that is absent reads as
  \<^verbatim>\<open>false\<close>). \<open>visit\<close> is the function that \<^verbatim>\<open>ScanMusicFiles\<close> hands to
  \<^verbatim>\<open>filepath.WalkDir\<close>, called once for every entry below the music directory with the
  path of the entry, whether it is a directory, and the error of reading it. The track
  literal of the source sets the path, the title and the format; the artist, the album
  and the duration have their zero values when \<open>extractMetadata\<close> is called.
\<close>

definition formats :: "string \<Rightarrow> bool" where
  "formats ext = (ext \<in> set [''.mp3'', ''.wav'', ''.flac'', ''.m4a'', ''.aac'', ''.ogg''])"

definition visit ::
    "(string \<Rightarrow> string \<Rightarrow> error + string) \<Rightarrow> Player \<Rightarrow> string \<Rightarrow> bool \<Rightarrow> error option
       \<Rightarrow> error option \<times> Player" where
  "visit rel p path isDir err =
     (case err of
        Some e \<Rightarrow> (Some e, p)
      | None \<Rightarrow>
          if isDir then (None, p)
          else
            let ext = ToLower (Ext path) in
            if formats ext then
              let track = \<lparr>Path = path, Title = Base path, Artist = [], Album = [],
                           Duration = 0, TrackFormat = ext\<rparr>
              in (None, p\<lparr>Tracks := Tracks p @ [extractMetadata rel p track]\<rparr>)
            else (None, p))"

section \<open>A player and three collaborators to run the operations on\<close>

text \<open>
  \<open>NewPlayer\<close> is the constructor of the source: the music directory is set and every
  other field has Go's zero value (so \<open>LoadedTrack\<close> starts at 0, not at -1).
  \<open>example_player\<close> is the player of the scenario of the specification after
  \<^verbatim>\<open>Initialize\<close>: a catalog of three tracks sorted by path, and the view equal to it.
\<close>

definition NewPlayer :: "string \<Rightarrow> Player" where
  "NewPlayer musicDir =
     \<lparr>MusicDir = musicDir, Tracks = [], CurrentTrack = 0, State = Stopped,
      Repeat = False, Shuffle = False, SearchQuery = [], FilteredTracks = [],
      Streamer = None, Ctrl = None,
      Format = \<lparr>SampleRate = 0, NumChannels = 0, Precision = 0\<rparr>,
      LoadedTrack = 0\<rparr>"

definition song1 :: Track where
  "song1 = \<lparr>Path = ''music/RootArtistA/AlbumX/Song1.mp3'', Title = ''Song1'',
            Artist = ''RootArtistA'', Album = ''AlbumX'', Duration = 0,
            TrackFormat = ''.mp3''\<rparr>"

definition song2 :: Track where
  "song2 = \<lparr>Path = ''music/RootArtistA/AlbumX/Song2.mp3'', Title = ''Song2'',
            Artist = ''RootArtistA'', Album = ''AlbumX'', Duration = 0,
            TrackFormat = ''.mp3''\<rparr>"

definition loose :: Track where
  "loose = \<lparr>Path = ''music/loose.mp3'', Title = ''loose'',
            Artist = [], Album = [], Duration = 0, TrackFormat = ''.mp3''\<rparr>"

definition example_player :: Player where
  "example_player =
     (NewPlayer ''music'')\<lparr>Tracks := [song1, song2, loose],
                            FilteredTracks := [song1, song2, loose]\<rparr>"

text \<open>
  Three collaborators: one that opens and decodes every file to ten seconds of audio at
  44100 Hz, one whose files cannot be opened, and one whose files open but do not decode.
\<close>

definition ten_seconds :: "StreamSeeker \<times> BeepFormat" where
  "ten_seconds =
     (\<lparr>Position = 0, Len = 441000\<rparr>, \<lparr>SampleRate = 44100, NumChannels = 2, Precision = 2\<rparr>)"

definition ok_env :: "unit Env" where
  "ok_env = \<lparr>OsOpen = (\<lambda>path. Inr ()),
             Mp3Decode = (\<lambda>file. Inr ten_seconds),
             WavDecode = (\<lambda>file. Inr ten_seconds)\<rparr>"

definition missing_env :: "unit Env" where
  "missing_env = \<lparr>OsOpen = (\<lambda>path. Inl ''no such file or directory''),
                  Mp3Decode = (\<lambda>file. Inr ten_seconds),
                  WavDecode = (\<lambda>file. Inr ten_seconds)\<rparr>"

definition corrupt_env :: "unit Env" where
  "corrupt_env = \<lparr>OsOpen = (\<lambda>path. Inr ()),
                  Mp3Decode = (\<lambda>file. Inl (ErrorNew ''mp3: EOF'')),
                  WavDecode = (\<lambda>file. Inl (ErrorNew ''wav: EOF''))\<rparr>"

definition playing_player :: Player where
  \<comment> \<open>\<open>example_player\<close> after a successful \<^verbatim>\<open>Play()\<close> with \<open>ok_env\<close>\<close>
  "playing_player =
     example_player\<lparr>Streamer := Some (fst ten_seconds),
                    Format := snd ten_seconds,
                    Ctrl := Some \<lparr>CtrlStreamer = fst ten_seconds, CtrlPaused = False\<rparr>,
                    LoadedTrack := 0,
                    State := Playing\<rparr>"

section \<open>The search predicate in the words of the specification\<close>

text \<open>
  The specification speaks of a query that is a case-insensitive substring of a field.
  With the lower-casing function \<open>lower\<close> of the platform, \<open>q\<close> is a case-insensitive
  substring of \<open>s\<close> when the lowered \<open>q\<close> occurs in the lowered \<open>s\<close>: the lowered \<open>s\<close>
  is some text, then the lowered \<open>q\<close>, then some text. \<open>spec_match\<close> asks this of one
  of the three fields of a track.
\<close>

definition ci_substring :: "(string \<Rightarrow> string) \<Rightarrow> string \<Rightarrow> string \<Rightarrow> bool" where
  "ci_substring lower q s = (\<exists>pre suf. lower s = pre @ lower q @ suf)"

definition spec_match :: "(string \<Rightarrow> string) \<Rightarrow> string \<Rightarrow> Track \<Rightarrow> bool" where
  "spec_match lower q t =
     (ci_substring lower q (Title t) \<or> ci_substring lower q (Artist t) \<or>
      ci_substring lower q (Album t))"

text \<open>
  For ASCII text the same can be said without any lower-casing function: two bytes are
  the same letter when they are equal or one is an upper case ASCII letter and the other
  that letter in lower case; two strings are equal ignoring case when they have the same
  length and the same letters at every position; and \<open>q\<close> is a case-insensitive
  substring of \<open>s\<close> when some substring of \<open>s\<close> equals \<open>q\<close> ignoring case. \<open>is_ascii\<close>
  says that every byte of a string is below 128, and \<open>ascii_fields\<close> that the three
  fields of a track are such strings.
\<close>

definition is_upper :: "char \<Rightarrow> bool" where
  "is_upper c = (65 \<le> (of_char c :: nat) \<and> (of_char c :: nat) \<le> 90)"

definition same_letter :: "char \<Rightarrow> char \<Rightarrow> bool" where
  "same_letter x y =
     (x = y \<or>
      (is_upper x \<and> (of_char y :: nat) = of_char x + 32) \<or>
      (is_upper y \<and> (of_char x :: nat) = of_char y + 32))"

definition letter_substring :: "string \<Rightarrow> string \<Rightarrow> bool" where
  "letter_substring q s = (\<exists>pre mid suf. s = pre @ mid @ suf \<and> list_all2 same_letter mid q)"

definition letter_match :: "string \<Rightarrow> Track \<Rightarrow> bool" where
  "letter_match q t =
     (letter_substring q (Title t) \<or> letter_substring q (Artist t) \<or>
      letter_substring q (Album t))"

definition is_ascii :: "string \<Rightarrow> bool" where
  "is_ascii s = list_all (\<lambda>c. (of_char c :: nat) < 128) s"

definition ascii_fields :: "Track \<Rightarrow> bool" where
  "ascii_fields t = (is_ascii (Title t) \<and> is_ascii (Artist t) \<and> is_ascii (Album t))"

section \<open>Names, and a relative path for the examples\<close>

text \<open>
  A plain name is an element of a clean path: not empty, without a separator, and neither
  \<^verbatim>\<open>.\<close> nor \<^verbatim>\<open>..\<close>. \<open>rel_below\<close> is the function that the examples pass for
  \<^verbatim>\<open>filepath.Rel\<close>. It gives what \<^verbatim>\<open>filepath.Rel\<close> gives when the base is a clean path
  of plain names, such as \<^verbatim>\<open>music\<close>, and the target is that base, a separator and
  further plain names, as \<^verbatim>\<open>filepath.WalkDir\<close> builds the paths below such a root. It
  is no model of \<^verbatim>\<open>filepath.Rel\<close> beyond that: for every other pair it answers with an
  error, also where \<^verbatim>\<open>filepath.Rel\<close> succeeds (a base \<^verbatim>\<open>.\<close> or \<^verbatim>\<open>/\<close>, a base that is
  not clean, a target beside the base). Nothing is proved from it but the examples.
\<close>

definition plain :: "string \<Rightarrow> bool" where
  "plain x = (x \<noteq> [] \<and> Separator \<notin> set x \<and> x \<noteq> ''.'' \<and> x \<noteq> ''..'')"

definition rel_below :: "string \<Rightarrow> string \<Rightarrow> error + string" where
  "rel_below base targ =
     (if HasPrefix targ (base @ [Separator])
      then Inr (drop (length base + 1) targ)
      else Inl (ErrorNew ''Rel: target is not below the base''))"

section \<open>Basic facts\<close>

lemma wrap64_id: "- (2 ^ 63) \<le> x \<Longrightarrow> x < 2 ^ 63 \<Longrightarrow> wrap64 x = x"
  by (simp add: wrap64_def)

lemma HasPrefix_append: "HasPrefix (s @ b) s"
  by (induction s) auto

lemma Contains_if_HasPrefix: "HasPrefix t s \<Longrightarrow> Contains (a @ t) s"
proof (induction a)
  case Nil
  then show ?case by (cases t; cases s) auto
next
  case (Cons x a)
  then show ?case by simp
qed

lemma Contains_middle: "Contains (a @ s @ b) s"
  by (simp add: Contains_if_HasPrefix HasPrefix_append)

lemma reset_index_CurrentTrack:
  "CurrentTrack (reset_index p) =
     (if CurrentTrack p \<ge> int (length (FilteredTracks p)) then 0 else CurrentTrack p)"
  by (simp add: reset_index_def)

lemma reset_index_fields [simp]:
  "State (reset_index p) = State p" "Streamer (reset_index p) = Streamer p"
  "LoadedTrack (reset_index p) = LoadedTrack p" "Format (reset_index p) = Format p"
  "Ctrl (reset_index p) = Ctrl p" "FilteredTracks (reset_index p) = FilteredTracks p"
  "Tracks (reset_index p) = Tracks p"
  by (simp_all add: reset_index_def)

lemma reset_index_in_range:
  "CurrentTrack p < int (length (FilteredTracks p)) \<Longrightarrow> reset_index p = p"
  by (simp add: reset_index_def)

lemma pause_ctrl_fields [simp]:
  "State (pause_ctrl b p) = State p" "Streamer (pause_ctrl b p) = Streamer p"
  "LoadedTrack (pause_ctrl b p) = LoadedTrack p" "Format (pause_ctrl b p) = Format p"
  "CurrentTrack (pause_ctrl b p) = CurrentTrack p"
  "FilteredTracks (pause_ctrl b p) = FilteredTracks p"
  "Tracks (pause_ctrl b p) = Tracks p"
  by (simp_all add: pause_ctrl_def split: option.split)

section \<open>The branches of Play\<close>

lemma Play_empty:
  "FilteredTracks p = [] \<Longrightarrow> Play env p = Inr (Some (ErrorNew ''no songs found''), p, [])"
  by (simp add: Play_def)

lemma Play_resume:
  assumes "FilteredTracks p \<noteq> []" "State p = Paused" "Streamer p \<noteq> None"
    "LoadedTrack p = CurrentTrack (reset_index p)"
  shows "Play env p =
    (case Ctrl p of
       None \<Rightarrow> Inl NilPointerDereference
     | Some c \<Rightarrow>
         Inr (None, (reset_index p)\<lparr>Ctrl := Some (c\<lparr>CtrlPaused := False\<rparr>), State := Playing\<rparr>,
              []))"
  using assms by (auto simp: Play_def Let_def)

lemma Play_noop:
  assumes "FilteredTracks p \<noteq> []" "State p = Playing" "Streamer p \<noteq> None"
    "LoadedTrack p = CurrentTrack (reset_index p)"
  shows "Play env p = Inr (None, reset_index p, [])"
  using assms by (auto simp: Play_def Let_def)

lemma Play_load:
  assumes "FilteredTracks p \<noteq> []"
    "\<not> (State p \<noteq> Stopped \<and> Streamer p \<noteq> None \<and> LoadedTrack p = CurrentTrack (reset_index p))"
  shows "Play env p =
    (if CurrentTrack (reset_index p) < 0 then Inl IndexOutOfRange
     else
       (case loadTrack env (Path (FilteredTracks p ! nat (CurrentTrack (reset_index p)))) of
          Inl err \<Rightarrow>
            Inr (Some (ErrorWrap (''can'' @ [CHR 0x27] @ ''t load song: '') err),
                 pause_ctrl True (reset_index p),
                 [Path (FilteredTracks p ! nat (CurrentTrack (reset_index p)))])
        | Inr (streamer, format) \<Rightarrow>
            Inr (None,
                 (pause_ctrl True (reset_index p))\<lparr>Streamer := Some streamer,
                    Format := format,
                    Ctrl := Some \<lparr>CtrlStreamer = streamer, CtrlPaused = False\<rparr>,
                    LoadedTrack := CurrentTrack (reset_index p),
                    State := Playing\<rparr>,
                 [Path (FilteredTracks p ! nat (CurrentTrack (reset_index p)))])))"
proof (cases "State p")
  case Stopped
  with assms show ?thesis by (auto simp: Play_def Let_def split: sum.split)
next
  case Playing
  with assms show ?thesis by (auto simp: Play_def Let_def split: sum.split)
next
  case Paused
  with assms show ?thesis by (auto simp: Play_def Let_def split: sum.split)
qed

lemma Play_out_of_range:
  assumes "FilteredTracks p \<noteq> []" and "CurrentTrack p \<ge> int (length (FilteredTracks p))"
  shows "Play env p = Play env (p\<lparr>CurrentTrack := 0\<rparr>)"
  using assms by (simp add: Play_def Let_def reset_index_def)

lemma Play_success_state:
  assumes "Play env p = Inr (None, p1, tr)"
  shows "FilteredTracks p1 \<noteq> [] \<and> State p1 = Playing \<and> Streamer p1 \<noteq> None \<and>
         LoadedTrack p1 = CurrentTrack p1 \<and> CurrentTrack p1 < int (length (FilteredTracks p1)) \<and>
         Tracks p1 = Tracks p"
proof (cases "FilteredTracks p = []")
  case True
  with assms show ?thesis by (simp add: Play_empty)
next
  case ne: False
  have idx: "CurrentTrack (reset_index p) < int (length (FilteredTracks p))"
    using ne by (simp add: reset_index_CurrentTrack)
  show ?thesis
  proof (cases "State p \<noteq> Stopped \<and> Streamer p \<noteq> None \<and> LoadedTrack p = CurrentTrack (reset_index p)")
    case True
    then consider "State p = Paused" | "State p = Playing" by (cases "State p") auto
    then show ?thesis
    proof cases
      case 1
      with True ne assms idx show ?thesis
        by (auto simp: Play_resume split: option.splits)
    next
      case 2
      with True ne assms idx show ?thesis by (auto simp: Play_noop)
    qed
  next
    case False
    from Play_load [OF ne False, of env] assms idx show ?thesis
      by (auto split: if_splits sum.splits prod.splits)
  qed
qed

section \<open>A failed load\<close>

lemma example_player_simps [simp]:
  "FilteredTracks example_player = [song1, song2, loose]"
  "Tracks example_player = [song1, song2, loose]"
  "CurrentTrack example_player = 0" "State example_player = Stopped"
  "Streamer example_player = None" "Ctrl example_player = None"
  "LoadedTrack example_player = 0" "Repeat example_player = False"
  by (simp_all add: example_player_def NewPlayer_def)

lemma Ext_song1: "ToLower (Ext ''music/RootArtistA/AlbumX/Song1.mp3'') = ''.mp3''"
  by (simp add: Ext_def Separator_def ToLower_def lower_byte_def)

lemma loadTrack_song1_corrupt:
  "loadTrack corrupt_env ''music/RootArtistA/AlbumX/Song1.mp3'' = Inl (ErrorNew ''mp3: EOF'')"
  by (simp add: loadTrack_def os_Open_def corrupt_env_def Ext_song1)

lemma loadTrack_song1_missing:
  "loadTrack missing_env ''music/RootArtistA/AlbumX/Song1.mp3'' =
     Inl (PathError ''open'' ''music/RootArtistA/AlbumX/Song1.mp3'' ''no such file or directory'')"
  by (simp add: loadTrack_def os_Open_def missing_env_def)

lemma loadTrack_song1_ok:
  "loadTrack ok_env ''music/RootArtistA/AlbumX/Song1.mp3'' = Inr ten_seconds"
  by (simp add: loadTrack_def os_Open_def ok_env_def Ext_song1)

text \<open>
  C1, as stated, fails: when the file opens and the decoder rejects it, the error that
  \<^verbatim>\<open>Play\<close> returns is the decoder's error behind the prefix \<^verbatim>\<open>can't load song: \<close>, and
  the path of the track occurs nowhere in its message.
\<close>

theorem Play_decode_error_lacks_path:
  "Play corrupt_env example_player =
     Inr (Some (ErrorWrap (''can'' @ [CHR 0x27] @ ''t load song: '') (ErrorNew ''mp3: EOF'')),
          example_player, [''music/RootArtistA/AlbumX/Song1.mp3''])
   \<and> \<not> Contains
         (Error (ErrorWrap (''can'' @ [CHR 0x27] @ ''t load song: '') (ErrorNew ''mp3: EOF'')))
         ''music/RootArtistA/AlbumX/Song1.mp3''"
proof -
  have ne: "FilteredTracks example_player \<noteq> []" by simp
  have ld: "\<not> (State example_player \<noteq> Stopped \<and> Streamer example_player \<noteq> None \<and>
              LoadedTrack example_player = CurrentTrack (reset_index example_player))"
    by simp
  have ri: "reset_index example_player = example_player"
    by (simp add: reset_index_in_range)
  have "Play corrupt_env example_player =
     Inr (Some (ErrorWrap (''can'' @ [CHR 0x27] @ ''t load song: '') (ErrorNew ''mp3: EOF'')),
          example_player, [''music/RootArtistA/AlbumX/Song1.mp3''])"
    by (simp add: Play_load [OF ne ld] ri song1_def loadTrack_song1_corrupt pause_ctrl_def)
  moreover have "\<not> Contains
         (Error (ErrorWrap (''can'' @ [CHR 0x27] @ ''t load song: '') (ErrorNew ''mp3: EOF'')))
         ''music/RootArtistA/AlbumX/Song1.mp3''"
    by simp
  ultimately show ?thesis by simp
qed

text \<open>
  C1, amended: if \<^verbatim>\<open>Play\<close> reaches \<^verbatim>\<open>loadTrack\<close> (the view is not empty, the call is
  neither the resume nor the no-op on the loaded track, the index is not negative) and
  \<^verbatim>\<open>loadTrack\<close> returns an error, then \<^verbatim>\<open>Play\<close> returns that error behind the prefix
  \<^verbatim>\<open>can't load song: \<close>, after exactly one call of \<^verbatim>\<open>loadTrack\<close>; the message contains the
  path when it was \<^verbatim>\<open>os.Open\<close> that failed; and the Transport State, the Streamer, the
  loaded index and the Format are as they were before the call.
\<close>

theorem Play_load_failure:
  assumes "FilteredTracks p \<noteq> []"
    and "\<not> (State p \<noteq> Stopped \<and> Streamer p \<noteq> None \<and> LoadedTrack p = CurrentTrack (reset_index p))"
    and "0 \<le> CurrentTrack p"
    and "loadTrack env (Path (FilteredTracks p ! nat (CurrentTrack (reset_index p)))) = Inl e"
  shows "\<exists>p'. Play env p =
            Inr (Some (ErrorWrap (''can'' @ [CHR 0x27] @ ''t load song: '') e), p',
                 [Path (FilteredTracks p ! nat (CurrentTrack (reset_index p)))]) \<and>
          (\<forall>t. OsOpen env (Path (FilteredTracks p ! nat (CurrentTrack (reset_index p)))) = Inl t \<longrightarrow>
             Contains (Error (ErrorWrap (''can'' @ [CHR 0x27] @ ''t load song: '') e))
               (Path (FilteredTracks p ! nat (CurrentTrack (reset_index p))))) \<and>
          State p' = State p \<and> Streamer p' = Streamer p \<and>
          LoadedTrack p' = LoadedTrack p \<and> Format p' = Format p"
proof -
  let ?path = "Path (FilteredTracks p ! nat (CurrentTrack (reset_index p)))"
  let ?pre = "''can'' @ [CHR 0x27] @ ''t load song: ''"
  have nonneg: "\<not> CurrentTrack (reset_index p) < 0"
    using assms(3) by (simp add: reset_index_CurrentTrack)
  have play: "Play env p = Inr (Some (ErrorWrap ?pre e), pause_ctrl True (reset_index p), [?path])"
    using Play_load [OF assms(1,2), of env] nonneg assms(4) by simp
  have "Contains (Error (ErrorWrap ?pre e)) ?path" if "OsOpen env ?path = Inl t" for t
  proof -
    from that assms(4) have "e = PathError ''open'' ?path t"
      by (simp add: loadTrack_def os_Open_def)
    then have "Error (ErrorWrap ?pre e) = (?pre @ ''open '') @ ?path @ ('': '' @ t)"
      by simp
    then show ?thesis
      using Contains_middle [of "?pre @ ''open ''" ?path "'': '' @ t"] by simp
  qed
  with play show ?thesis by simp
qed

theorem Play_load_failure_witness:
  "FilteredTracks example_player \<noteq> [] \<and> 0 \<le> CurrentTrack example_player \<and>
   loadTrack missing_env ''music/RootArtistA/AlbumX/Song1.mp3'' =
     Inl (PathError ''open'' ''music/RootArtistA/AlbumX/Song1.mp3'' ''no such file or directory'') \<and>
   (\<exists>p'. Play missing_env example_player =
            Inr (Some (ErrorWrap (''can'' @ [CHR 0x27] @ ''t load song: '')
                        (PathError ''open'' ''music/RootArtistA/AlbumX/Song1.mp3''
                           ''no such file or directory'')),
                 p', [''music/RootArtistA/AlbumX/Song1.mp3'']) \<and>
          Contains
            (Error (ErrorWrap (''can'' @ [CHR 0x27] @ ''t load song: '')
                      (PathError ''open'' ''music/RootArtistA/AlbumX/Song1.mp3''
                         ''no such file or directory'')))
            ''music/RootArtistA/AlbumX/Song1.mp3'' \<and>
          State p' = Stopped \<and> Streamer p' = None \<and> LoadedTrack p' = 0 \<and>
          Format p' = Format example_player)"
proof -
  have ne: "FilteredTracks example_player \<noteq> []" by simp
  have ld: "\<not> (State example_player \<noteq> Stopped \<and> Streamer example_player \<noteq> None \<and>
              LoadedTrack example_player = CurrentTrack (reset_index example_player))"
    by simp
  have ix: "0 \<le> CurrentTrack example_player" by simp
  have ri: "reset_index example_player = example_player"
    by (simp add: reset_index_in_range)
  have path: "Path (FilteredTracks example_player ! nat (CurrentTrack (reset_index example_player)))
              = ''music/RootArtistA/AlbumX/Song1.mp3''"
    by (simp add: ri song1_def)
  have opn: "OsOpen missing_env ''music/RootArtistA/AlbumX/Song1.mp3'' =
               Inl ''no such file or directory''"
    by (simp add: missing_env_def)
  have fail: "loadTrack missing_env
       (Path (FilteredTracks example_player ! nat (CurrentTrack (reset_index example_player)))) =
     Inl (PathError ''open'' ''music/RootArtistA/AlbumX/Song1.mp3'' ''no such file or directory'')"
    by (simp only: path loadTrack_song1_missing)
  from Play_load_failure [OF ne ld ix fail] opn
  show ?thesis
    unfolding path by (simp add: loadTrack_song1_missing)
qed

section \<open>Play with an index beyond the view\<close>

lemma Play_ok_example:
  "CurrentTrack p = 0 \<or> CurrentTrack p \<ge> 3 \<Longrightarrow> FilteredTracks p = [song1, song2, loose] \<Longrightarrow>
   State p = Stopped \<Longrightarrow> Ctrl p = None \<Longrightarrow>
   Play ok_env p =
     Inr (None,
          p\<lparr>CurrentTrack := 0, Streamer := Some (fst ten_seconds), Format := snd ten_seconds,
            Ctrl := Some \<lparr>CtrlStreamer = fst ten_seconds, CtrlPaused = False\<rparr>,
            LoadedTrack := 0, State := Playing\<rparr>,
          [''music/RootArtistA/AlbumX/Song1.mp3''])"
proof -
  assume a: "CurrentTrack p = 0 \<or> CurrentTrack p \<ge> 3" "FilteredTracks p = [song1, song2, loose]"
    "State p = Stopped" "Ctrl p = None"
  have ne: "FilteredTracks p \<noteq> []" using a by simp
  have ld: "\<not> (State p \<noteq> Stopped \<and> Streamer p \<noteq> None \<and>
              LoadedTrack p = CurrentTrack (reset_index p))"
    using a by simp
  have ri: "reset_index p = p\<lparr>CurrentTrack := 0\<rparr>"
    using a by (auto simp: reset_index_def)
  show ?thesis
    using a
    by (simp add: Play_load [OF ne ld] ri song1_def loadTrack_song1_ok pause_ctrl_def
        ten_seconds_def)
qed

text \<open>
  C3, as stated, fails: with a view of three tracks, the index 7 and the player stopped,
  \<^verbatim>\<open>Play\<close> does not refuse. It sets the index to 0, loads the first track of the view,
  reports no error and leaves the player Playing.
\<close>

theorem Play_beyond_view_plays_first:
  "Play ok_env (example_player\<lparr>CurrentTrack := 7\<rparr>) =
     Inr (None, playing_player, [''music/RootArtistA/AlbumX/Song1.mp3''])
   \<and> State playing_player = Playing \<and> State (example_player\<lparr>CurrentTrack := 7\<rparr>) = Stopped"
proof -
  have "Play ok_env (example_player\<lparr>CurrentTrack := 7\<rparr>) =
     Inr (None, playing_player, [''music/RootArtistA/AlbumX/Song1.mp3''])"
    by (subst Play_ok_example) (simp_all add: playing_player_def example_player_def NewPlayer_def)
  then show ?thesis by (simp add: playing_player_def)
qed

text \<open>
  C3, amended: in a state whose view is not empty and whose index is at or beyond the
  length of the view (and whose control handle is set whenever a stream is, as in every
  state the operations produce), \<^verbatim>\<open>Play\<close> does not crash and does not refuse: it sets
  the Current Index to 0 and goes on exactly as \<^verbatim>\<open>Play\<close> at index 0 does. From Stopped,
  when the first track of the view loads, it returns no error and the player is Playing
  the stream of that track, with the Current Index and the loaded index both 0.
\<close>

theorem Play_index_beyond_view:
  assumes "FilteredTracks p \<noteq> []"
    and "CurrentTrack p \<ge> int (length (FilteredTracks p))"
    and "Streamer p \<noteq> None \<longrightarrow> Ctrl p \<noteq> None"
  shows "Play env p = Play env (p\<lparr>CurrentTrack := 0\<rparr>) \<and>
         (\<exists>r. Play env p = Inr r) \<and>
         (\<forall>s f. State p = Stopped \<and> loadTrack env (Path (FilteredTracks p ! 0)) = Inr (s, f) \<longrightarrow>
            (\<exists>p'. Play env p = Inr (None, p', [Path (FilteredTracks p ! 0)]) \<and>
                   State p' = Playing \<and> Streamer p' = Some s \<and>
                   CurrentTrack p' = 0 \<and> LoadedTrack p' = 0))"
proof -
  have ct: "CurrentTrack (reset_index p) = 0"
    using assms(2) by (simp add: reset_index_CurrentTrack)
  have ret: "\<exists>r. Play env p = Inr r"
  proof (cases "State p \<noteq> Stopped \<and> Streamer p \<noteq> None \<and> LoadedTrack p = CurrentTrack (reset_index p)")
    case True
    then consider "State p = Paused" | "State p = Playing" by (cases "State p") auto
    then show ?thesis
    proof cases
      case 1
      with True assms show ?thesis by (auto simp: Play_resume split: option.splits)
    next
      case 2
      with True assms show ?thesis by (simp add: Play_noop)
    qed
  next
    case False
    show ?thesis
      by (simp add: Play_load [OF assms(1) False] ct split: sum.split prod.split)
  qed
  have load: "\<exists>p'. Play env p = Inr (None, p', [Path (FilteredTracks p ! 0)]) \<and>
                   State p' = Playing \<and> Streamer p' = Some s \<and>
                   CurrentTrack p' = 0 \<and> LoadedTrack p' = 0"
    if "State p = Stopped" "loadTrack env (Path (FilteredTracks p ! 0)) = Inr (s, f)" for s f
  proof -
    from that(1) have nl: "\<not> (State p \<noteq> Stopped \<and> Streamer p \<noteq> None \<and>
        LoadedTrack p = CurrentTrack (reset_index p))" by simp
    show ?thesis
      using that(2) by (simp add: Play_load [OF assms(1) nl] ct)
  qed
  from Play_out_of_range [OF assms(1,2)] ret load show ?thesis by blast
qed

theorem Play_index_beyond_view_witness:
  "FilteredTracks (example_player\<lparr>CurrentTrack := 7\<rparr>) \<noteq> [] \<and>
   CurrentTrack (example_player\<lparr>CurrentTrack := 7\<rparr>)
     \<ge> int (length (FilteredTracks (example_player\<lparr>CurrentTrack := 7\<rparr>))) \<and>
   Ctrl (example_player\<lparr>CurrentTrack := 7\<rparr>) = None \<and>
   Streamer (example_player\<lparr>CurrentTrack := 7\<rparr>) = None \<and>
   State (example_player\<lparr>CurrentTrack := 7\<rparr>) = Stopped \<and>
   loadTrack ok_env (Path (FilteredTracks (example_player\<lparr>CurrentTrack := 7\<rparr>) ! 0))
     = Inr ten_seconds \<and>
   Play ok_env (example_player\<lparr>CurrentTrack := 7\<rparr>) = Play ok_env example_player \<and>
   (\<exists>p'. Play ok_env (example_player\<lparr>CurrentTrack := 7\<rparr>) =
            Inr (None, p', [''music/RootArtistA/AlbumX/Song1.mp3'']) \<and>
          State p' = Playing \<and> Streamer p' = Some (fst ten_seconds) \<and>
          CurrentTrack p' = 0 \<and> LoadedTrack p' = 0)"
proof -
  let ?p = "example_player\<lparr>CurrentTrack := 7\<rparr>"
  have ne: "FilteredTracks ?p \<noteq> []" by simp
  have ix: "CurrentTrack ?p \<ge> int (length (FilteredTracks ?p))" by simp
  have cs: "Streamer ?p \<noteq> None \<longrightarrow> Ctrl ?p \<noteq> None" by simp
  have ld: "loadTrack ok_env (Path (FilteredTracks ?p ! 0)) = Inr (fst ten_seconds, snd ten_seconds)"
    by (simp add: song1_def loadTrack_song1_ok)
  have z: "?p\<lparr>CurrentTrack := 0\<rparr> = example_player"
    by (simp add: example_player_def NewPlayer_def)
  have st: "State ?p = Stopped" by simp
  from Play_index_beyond_view [OF ne ix cs, of ok_env] st ld
  have "Play ok_env ?p = Play ok_env (?p\<lparr>CurrentTrack := 0\<rparr>)"
    and "\<exists>p'. Play ok_env ?p = Inr (None, p', [Path (FilteredTracks ?p ! 0)]) \<and>
                   State p' = Playing \<and> Streamer p' = Some (fst ten_seconds) \<and>
                   CurrentTrack p' = 0 \<and> LoadedTrack p' = 0"
    by blast+
  then show ?thesis
    using ld by (simp add: z song1_def)
qed

section \<open>NextTrack at the end of the view\<close>

text \<open>
  C5: for every non-empty Filtered View (of a length that a Go slice can have) with
  Repeat off and the Current Index at the last index, \<^verbatim>\<open>NextTrack\<close> returns the error
  \<^verbatim>\<open>at the end\<close>, which is the end-of-playlist condition of the source; the player is
  exactly as before the call, so the Current Index is still the last index and nothing
  of the playback has changed; \<^verbatim>\<open>loadTrack\<close> is not called; and the call does not panic.
\<close>

theorem NextTrack_at_end:
  assumes "FilteredTracks p \<noteq> []"
    and "\<not> Repeat p"
    and "CurrentTrack p = int (length (FilteredTracks p)) - 1"
    and "int (length (FilteredTracks p)) < 2 ^ 63"
  shows "NextTrack env p = Inr (Some (ErrorNew ''at the end''), p, [])"
  using assms by (simp add: NextTrack_def Let_def wrap64_id)

theorem NextTrack_at_end_witness:
  "FilteredTracks (example_player\<lparr>CurrentTrack := 2\<rparr>) \<noteq> [] \<and>
   \<not> Repeat (example_player\<lparr>CurrentTrack := 2\<rparr>) \<and>
   CurrentTrack (example_player\<lparr>CurrentTrack := 2\<rparr>) =
     int (length (FilteredTracks (example_player\<lparr>CurrentTrack := 2\<rparr>))) - 1 \<and>
   NextTrack ok_env (example_player\<lparr>CurrentTrack := 2\<rparr>) =
     Inr (Some (ErrorNew ''at the end''), example_player\<lparr>CurrentTrack := 2\<rparr>, [])"
  using NextTrack_at_end [of "example_player\<lparr>CurrentTrack := 2\<rparr>" ok_env]
  by simp

section \<open>Play twice\<close>

text \<open>
  C8: let a call of \<^verbatim>\<open>Play\<close> return without error in the state \<open>p1\<close>. A second call
  in that state, with any collaborator, calls \<^verbatim>\<open>loadTrack\<close> not at all and changes
  nothing. If the player was paused in between, the second call calls \<^verbatim>\<open>loadTrack\<close> not
  at all either and only clears the \<^verbatim>\<open>Paused\<close> flag of the control handle: the player is
  Playing again and the loaded stream is the one of \<open>p1\<close>.
\<close>

theorem Play_twice_no_second_load:
  assumes "Play env p = Inr (None, p1, tr)"
  shows "Play env' p1 = Inr (None, p1, []) \<and>
         Play env' (Pause p1) = Inr (None, pause_ctrl False p1, []) \<and>
         Streamer (pause_ctrl False p1) = Streamer p1 \<and>
         State (pause_ctrl False p1) = Playing"
proof -
  from Play_success_state [OF assms]
  have ne: "FilteredTracks p1 \<noteq> []" and st: "State p1 = Playing"
    and sr: "Streamer p1 \<noteq> None" and ld: "LoadedTrack p1 = CurrentTrack p1"
    and ix: "CurrentTrack p1 < int (length (FilteredTracks p1))"
    by simp_all
  have ri: "reset_index p1 = p1"
    using ix by (rule reset_index_in_range)
  have first: "Play env' p1 = Inr (None, p1, [])"
    using Play_noop [OF ne st sr, of env'] ld by (simp add: ri)
  have second: "Play env' (Pause p1) = Inr (None, pause_ctrl False p1, [])"
  proof (cases "Ctrl p1")
    case None
    then show ?thesis
      using first by (simp add: Pause_def pause_ctrl_def)
  next
    case (Some c)
    let ?q = "p1\<lparr>Ctrl := Some (c\<lparr>CtrlPaused := True\<rparr>), State := Paused\<rparr>"
    have q: "Pause p1 = ?q"
      using Some st by (simp add: Pause_def)
    have rq: "reset_index ?q = ?q"
      using ix by (simp add: reset_index_in_range)
    have "Play env' ?q =
        Inr (None, ?q\<lparr>Ctrl := Some (c\<lparr>CtrlPaused := True\<rparr>\<lparr>CtrlPaused := False\<rparr>),
                       State := Playing\<rparr>, [])"
      using ne sr ld by (subst Play_resume) (simp_all add: rq)
    then show ?thesis
      using Some st by (simp add: q pause_ctrl_def)
  qed
  from first second st show ?thesis by simp
qed

theorem Play_twice_no_second_load_witness:
  "Play ok_env example_player =
     Inr (None, playing_player, [''music/RootArtistA/AlbumX/Song1.mp3'']) \<and>
   Play corrupt_env playing_player = Inr (None, playing_player, []) \<and>
   Play corrupt_env (Pause playing_player) = Inr (None, playing_player, [])"
proof -
  have first: "Play ok_env example_player =
      Inr (None, playing_player, [''music/RootArtistA/AlbumX/Song1.mp3''])"
    by (subst Play_ok_example) (simp_all add: playing_player_def example_player_def NewPlayer_def)
  have "pause_ctrl False playing_player = playing_player"
    by (simp add: pause_ctrl_def playing_player_def)
  with Play_twice_no_second_load [OF first, of corrupt_env] first show ?thesis
    by simp
qed

section \<open>Stop\<close>

text \<open>
  C4, as stated, fails: \<^verbatim>\<open>Stop\<close> does not discard the stream. After a successful
  \<^verbatim>\<open>Play\<close> and a \<^verbatim>\<open>Stop\<close>, the Streamer is still the decoded stream and
  \<^verbatim>\<open>GetLength\<close> returns its ten seconds (in nanoseconds), not zero.
\<close>

theorem Stop_keeps_stream:
  "Play ok_env example_player =
     Inr (None, playing_player, [''music/RootArtistA/AlbumX/Song1.mp3'']) \<and>
   State (Stop playing_player) = Stopped \<and>
   Streamer (Stop playing_player) = Some \<lparr>Position = 0, Len = 441000\<rparr> \<and>
   GetLength (Stop playing_player) = Inr 10000000000"
proof -
  have first: "Play ok_env example_player =
      Inr (None, playing_player, [''music/RootArtistA/AlbumX/Song1.mp3''])"
    by (subst Play_ok_example) (simp_all add: playing_player_def example_player_def NewPlayer_def)
  have "wrap64 (wrap64 (1000000000 * 441000) sdiv 44100) = 10000000000"
    by (simp add: wrap64_def signed_divide_int_def)
  then have "GetLength (Stop playing_player) = Inr 10000000000"
    by (simp add: GetLength_def Stop_def playing_player_def ten_seconds_def SampleRate_D_def)
  with first show ?thesis
    by (simp add: Stop_def playing_player_def ten_seconds_def)
qed

text \<open>
  C4, amended: for every player state, after \<^verbatim>\<open>Stop\<close> the control handle, if there is
  one, is paused, the loaded index is -1 and the Transport State is Stopped. The
  Streamer and the Format are kept as they were, so \<^verbatim>\<open>GetPosition\<close> and \<^verbatim>\<open>GetLength\<close>
  answer as before the call; they return zero when no stream has been loaded.
\<close>

theorem Stop_effect:
  "State (Stop p) = Stopped \<and> LoadedTrack (Stop p) = - 1 \<and>
   Ctrl (Stop p) = map_option (\<lambda>c. c\<lparr>CtrlPaused := True\<rparr>) (Ctrl p) \<and>
   Streamer (Stop p) = Streamer p \<and> Format (Stop p) = Format p \<and>
   GetPosition (Stop p) = GetPosition p \<and> GetLength (Stop p) = GetLength p \<and>
   (Streamer p = None \<longrightarrow> GetPosition (Stop p) = Inr 0 \<and> GetLength (Stop p) = Inr 0)"
  by (simp add: Stop_def GetPosition_def GetLength_def pause_ctrl_def split: option.split)

theorem Stop_effect_witness:
  "Streamer example_player = None \<and>
   State (Stop example_player) = Stopped \<and> LoadedTrack (Stop example_player) = - 1 \<and>
   GetPosition (Stop example_player) = Inr 0 \<and> GetLength (Stop example_player) = Inr 0"
  using Stop_effect [of example_player] by auto

section \<open>Search as a filter\<close>

lemma search_loop_filter:
  "search_loop lower query ts acc = acc @ filter (track_matches lower query) ts"
  by (induction ts arbitrary: acc) simp_all

lemma HasPrefix_iff: "HasPrefix s sub \<longleftrightarrow> (\<exists>suf. s = sub @ suf)"
  by (induction s sub rule: HasPrefix.induct) auto

lemma Contains_iff: "Contains s sub \<longleftrightarrow> (\<exists>pre suf. s = pre @ sub @ suf)"
proof (induction s)
  case Nil
  show ?case by auto
next
  case (Cons x xs)
  show ?case
  proof
    assume "Contains (x # xs) sub"
    then consider "HasPrefix (x # xs) sub" | "Contains xs sub" by auto
    then show "\<exists>pre suf. x # xs = pre @ sub @ suf"
    proof cases
      case 1
      then obtain suf where "x # xs = sub @ suf" by (auto simp: HasPrefix_iff)
      then have "x # xs = [] @ sub @ suf" by simp
      then show ?thesis by blast
    next
      case 2
      with Cons obtain pre suf where "xs = pre @ sub @ suf" by blast
      then have "x # xs = (x # pre) @ sub @ suf" by simp
      then show ?thesis by blast
    qed
  next
    assume "\<exists>pre suf. x # xs = pre @ sub @ suf"
    then obtain pre suf where e: "x # xs = pre @ sub @ suf" by blast
    show "Contains (x # xs) sub"
    proof (cases pre)
      case Nil
      with e have "HasPrefix (x # xs) sub" by (auto simp: HasPrefix_iff)
      then show ?thesis by simp
    next
      case (Cons y ys)
      with e have "xs = ys @ sub @ suf" by simp
      with Cons.IH have "Contains xs sub" by blast
      then show ?thesis by simp
    qed
  qed
qed

lemma lower_byte_upper:
  "is_upper c \<Longrightarrow> (of_char (lower_byte c) :: nat) = of_char c + 32"
  by (simp add: lower_byte_def is_upper_def Let_def)

lemma lower_byte_other: "\<not> is_upper c \<Longrightarrow> lower_byte c = c"
  by (auto simp: lower_byte_def is_upper_def Let_def)

lemma lower_byte_not_upper: "\<not> is_upper (lower_byte c)"
  by (cases "is_upper c") (auto simp: lower_byte_other lower_byte_upper is_upper_def)

lemma same_letter_iff: "same_letter x y \<longleftrightarrow> lower_byte x = lower_byte y"
proof
  assume "same_letter x y"
  then consider "x = y" | "is_upper x" "(of_char y :: nat) = of_char x + 32"
    | "is_upper y" "(of_char x :: nat) = of_char y + 32"
    by (auto simp: same_letter_def)
  then show "lower_byte x = lower_byte y"
  proof cases
    case 1
    then show ?thesis by simp
  next
    case 2
    then have "\<not> is_upper y" by (simp add: is_upper_def)
    moreover have "(of_char (lower_byte x) :: nat) = of_char y"
      using 2 by (simp add: lower_byte_upper)
    then have "lower_byte x = y" by simp
    ultimately show ?thesis by (simp add: lower_byte_other)
  next
    case 3
    then have "\<not> is_upper x" by (simp add: is_upper_def)
    moreover have "(of_char (lower_byte y) :: nat) = of_char x"
      using 3 by (simp add: lower_byte_upper)
    then have "lower_byte y = x" by simp
    ultimately show ?thesis by (simp add: lower_byte_other)
  qed
next
  assume e: "lower_byte x = lower_byte y"
  show "same_letter x y"
  proof (cases "is_upper x")
    case ux: True
    show ?thesis
    proof (cases "is_upper y")
      case True
      with ux e have "(of_char x :: nat) + 32 = of_char y + 32"
        by (metis lower_byte_upper)
      then have "x = y" by simp
      then show ?thesis by (simp add: same_letter_def)
    next
      case False
      with e have "lower_byte x = y" by (simp add: lower_byte_other)
      with ux have "(of_char y :: nat) = of_char x + 32"
        using lower_byte_upper by blast
      with ux show ?thesis by (simp add: same_letter_def)
    qed
  next
    case nx: False
    show ?thesis
    proof (cases "is_upper y")
      case True
      from nx e have "lower_byte y = x" by (simp add: lower_byte_other)
      with True have "(of_char x :: nat) = of_char y + 32"
        using lower_byte_upper by blast
      with True show ?thesis by (simp add: same_letter_def)
    next
      case False
      with nx e show ?thesis by (simp add: lower_byte_other same_letter_def)
    qed
  qed
qed

lemma same_letters_map:
  "list_all2 same_letter a b \<longleftrightarrow> map lower_byte a = map lower_byte b"
proof (induction a arbitrary: b)
  case Nil
  show ?case by auto
next
  case (Cons x xs)
  show ?case
  proof (cases b)
    case Nil
    then show ?thesis by simp
  next
    case (Cons y ys)
    then show ?thesis using Cons.IH [of ys] by (simp add: same_letter_iff)
  qed
qed

lemma equal_ignoring_case_iff:
  "list_all2 same_letter a b \<longleftrightarrow> ToLower a = ToLower b"
  by (simp add: same_letters_map ToLower_def)

lemma Contains_ToLower_iff:
  "Contains (ToLower s) (ToLower q) \<longleftrightarrow> letter_substring q s"
proof
  assume "Contains (ToLower s) (ToLower q)"
  then obtain pre suf where "map lower_byte s = pre @ map lower_byte q @ suf"
    by (auto simp: Contains_iff ToLower_def)
  then obtain s1 r where s1: "s = s1 @ r" and r: "map lower_byte r = map lower_byte q @ suf"
    by (metis map_eq_append_conv)
  from r obtain s2 s3 where s23: "r = s2 @ s3" and m: "map lower_byte s2 = map lower_byte q"
    by (metis map_eq_append_conv)
  from s1 s23 have s: "s = s1 @ s2 @ s3" by simp
  from m have "list_all2 same_letter s2 q"
    by (simp add: equal_ignoring_case_iff ToLower_def)
  with s show "letter_substring q s" by (auto simp: letter_substring_def)
next
  assume "letter_substring q s"
  then obtain pre mid suf where s: "s = pre @ mid @ suf" and m: "list_all2 same_letter mid q"
    by (auto simp: letter_substring_def)
  from m have "ToLower mid = ToLower q" by (simp add: equal_ignoring_case_iff)
  with s have "ToLower s = ToLower pre @ ToLower q @ ToLower suf"
    by (simp add: ToLower_def)
  then show "Contains (ToLower s) (ToLower q)"
    by (simp add: Contains_middle)
qed

lemma track_matches_iff: "track_matches lower (lower q) t \<longleftrightarrow> spec_match lower q t"
  by (simp add: track_matches_def spec_match_def ci_substring_def Contains_iff)

lemma ci_substring_empty: "lower [] = [] \<Longrightarrow> ci_substring lower [] s"
  unfolding ci_substring_def
proof (intro exI)
  assume "lower [] = []"
  then show "lower s = [] @ lower [] @ lower s" by simp
qed

lemma Search_view:
  assumes "lower [] = []"
  shows "FilteredTracks (Search lower q p) = filter (spec_match lower q) (Tracks p)"
proof (cases "q = []")
  case True
  then show ?thesis
    using assms by (simp add: Search_def spec_match_def ci_substring_empty)
next
  case False
  have "filter (track_matches lower (lower q)) (Tracks p) = filter (spec_match lower q) (Tracks p)"
    by (rule filter_cong) (simp_all add: track_matches_iff)
  with False show ?thesis
    by (simp add: Search_def search_loop_filter)
qed

lemma spec_match_ascii:
  assumes "\<forall>s. is_ascii s \<longrightarrow> lower s = ToLower s" "is_ascii q" "ascii_fields t"
  shows "spec_match lower q t \<longleftrightarrow> letter_match q t"
proof -
  have "ci_substring lower q s \<longleftrightarrow> letter_substring q s" if "is_ascii s" for s
  proof -
    from assms(1,2) that have "lower q = ToLower q" "lower s = ToLower s" by simp_all
    then show ?thesis
      by (simp add: ci_substring_def Contains_ToLower_iff [symmetric] Contains_iff)
  qed
  with assms(3) show ?thesis
    by (simp add: spec_match_def letter_match_def ascii_fields_def)
qed

lemma Search_fields [simp]:
  "Tracks (Search lower q p) = Tracks p" "CurrentTrack (Search lower q p) = CurrentTrack p"
  "State (Search lower q p) = State p" "Streamer (Search lower q p) = Streamer p"
  "Ctrl (Search lower q p) = Ctrl p" "LoadedTrack (Search lower q p) = LoadedTrack p"
  by (simp_all add: Search_def Let_def)

section \<open>What Search selects\<close>

lemma tracks_distinct: "song1 \<noteq> song2" "song1 \<noteq> loose" "song2 \<noteq> loose"
  by (simp_all add: song1_def song2_def loose_def)

lemma search_loop_ALBUMX:
  "search_loop ToLower (ToLower ''ALBUMX'') [song1, song2, loose] [] = [song1, song2]"
  by code_simp

lemma search_loop_loose:
  "search_loop ToLower (ToLower ''loose'') [song1, song2, loose] [] = [loose]"
  by code_simp

lemma Search_ALBUMX:
  "FilteredTracks (Search ToLower ''ALBUMX'' example_player) = [song1, song2]"
  by (simp add: Search_def search_loop_ALBUMX del: search_loop.simps)

lemma Search_loose:
  "FilteredTracks (Search ToLower ''loose'' p) = [loose]" if "Tracks p = [song1, song2, loose]"
  using that by (simp add: Search_def search_loop_loose del: search_loop.simps)

lemma example_ascii:
  "is_ascii ''ALBUMX''" "ascii_fields song1" "ascii_fields song2" "ascii_fields loose"
  by code_simp+

text \<open>
  C6: for every catalog and every query \<open>q\<close>, whatever the lower-casing function is
  (\<^verbatim>\<open>strings.ToLower\<close> maps the empty string to itself, and no more is asked of it), the
  Filtered View that \<^verbatim>\<open>Search\<close> produces is the catalog filtered, in its order, by the
  predicate of the specification: a track of the catalog is in the view if and only if
  \<open>q\<close> is a case-insensitive substring of its title, its artist or its album, and a track
  of the catalog that is not in the view has \<open>q\<close> as a case-insensitive substring of none
  of the three. When the query and the fields of the catalog are ASCII text, on which
  the lower-casing function moves \<^verbatim>\<open>A\<close> to \<^verbatim>\<open>Z\<close> to \<^verbatim>\<open>a\<close> to \<^verbatim>\<open>z\<close>, the view is the
  catalog filtered by the predicate that compares letter by letter.
\<close>

theorem Search_selects_ci_substring:
  assumes "lower [] = []"
  shows
  "FilteredTracks (Search lower q p) = filter (spec_match lower q) (Tracks p) \<and>
   (\<forall>t \<in> set (Tracks p).
      t \<in> set (FilteredTracks (Search lower q p)) \<longleftrightarrow> spec_match lower q t) \<and>
   (\<forall>t \<in> set (Tracks p). t \<notin> set (FilteredTracks (Search lower q p)) \<longrightarrow>
      \<not> ci_substring lower q (Title t) \<and> \<not> ci_substring lower q (Artist t) \<and>
      \<not> ci_substring lower q (Album t)) \<and>
   ((\<forall>s. is_ascii s \<longrightarrow> lower s = ToLower s) \<and> is_ascii q \<and>
    (\<forall>t \<in> set (Tracks p). ascii_fields t) \<longrightarrow>
      FilteredTracks (Search lower q p) = filter (letter_match q) (Tracks p))"
proof -
  have v: "FilteredTracks (Search lower q p) = filter (spec_match lower q) (Tracks p)"
    using assms by (rule Search_view)
  have "filter (spec_match lower q) (Tracks p) = filter (letter_match q) (Tracks p)"
    if "\<forall>s. is_ascii s \<longrightarrow> lower s = ToLower s" "is_ascii q"
      "\<forall>t \<in> set (Tracks p). ascii_fields t"
    using that by (intro filter_cong) (simp_all add: spec_match_ascii)
  with v show ?thesis
    by (simp add: spec_match_def)
qed

theorem Search_selects_ci_substring_witness:
  "ToLower [] = [] \<and> is_ascii ''ALBUMX'' \<and>
   ascii_fields song1 \<and> ascii_fields song2 \<and> ascii_fields loose \<and>
   FilteredTracks (Search ToLower ''ALBUMX'' example_player) = [song1, song2] \<and>
   song1 \<in> set (Tracks example_player) \<and> loose \<in> set (Tracks example_player) \<and>
   spec_match ToLower ''ALBUMX'' song1 \<and>
   \<not> ci_substring ToLower ''ALBUMX'' (Title loose) \<and>
   \<not> ci_substring ToLower ''ALBUMX'' (Artist loose) \<and>
   \<not> ci_substring ToLower ''ALBUMX'' (Album loose) \<and>
   filter (letter_match ''ALBUMX'') (Tracks example_player) = [song1, song2]"
proof -
  have e: "ToLower [] = []" by (simp add: ToLower_def)
  have v: "FilteredTracks (Search ToLower ''ALBUMX'' example_player) = [song1, song2]"
    by (rule Search_ALBUMX)
  have in1: "song1 \<in> set (Tracks example_player)" and in3: "loose \<in> set (Tracks example_player)"
    by simp_all
  have m1: "song1 \<in> set (FilteredTracks (Search ToLower ''ALBUMX'' example_player))"
    by (simp add: v)
  have m3: "loose \<notin> set (FilteredTracks (Search ToLower ''ALBUMX'' example_player))"
    using tracks_distinct by (simp add: v)
  have asc: "\<forall>t \<in> set (Tracks example_player). ascii_fields t"
    by (simp add: example_ascii)
  have agree: "\<forall>s. is_ascii s \<longrightarrow> ToLower s = ToLower s" by simp
  note inst = Search_selects_ci_substring [of ToLower "''ALBUMX''" example_player, OF e]
  from inst in1 m1 have a: "spec_match ToLower ''ALBUMX'' song1" by blast
  from inst in3 m3 have b: "\<not> ci_substring ToLower ''ALBUMX'' (Title loose) \<and>
      \<not> ci_substring ToLower ''ALBUMX'' (Artist loose) \<and>
      \<not> ci_substring ToLower ''ALBUMX'' (Album loose)" by blast
  from inst agree asc example_ascii(1)
  have c: "FilteredTracks (Search ToLower ''ALBUMX'' example_player) =
             filter (letter_match ''ALBUMX'') (Tracks example_player)" by blast
  from e v in1 in3 a b c example_ascii show ?thesis by simp
qed

section \<open>Search and the Current Index\<close>

text \<open>
  C2, as stated, fails: \<^verbatim>\<open>Search\<close> does not write the Current Index. With the index
  2 in a catalog of three, a query that only the last track matches gives a view of one
  track, and the Current Index is still 2 when \<^verbatim>\<open>Search\<close> returns: neither inside the
  view nor 0.
\<close>

theorem Search_leaves_index_out_of_range:
  "FilteredTracks (Search ToLower ''loose'' (example_player\<lparr>CurrentTrack := 2\<rparr>)) = [loose] \<and>
   CurrentTrack (Search ToLower ''loose'' (example_player\<lparr>CurrentTrack := 2\<rparr>)) = 2"
  by (simp add: Search_loose)

text \<open>
  C2, amended: for every query and every player state, \<^verbatim>\<open>Search\<close> replaces the Filtered
  View and leaves the Current Index as it was. When that index is at or beyond the length
  of the new view, \<^verbatim>\<open>GetCurrentTrack\<close> reports that there is no current track, and the
  next \<^verbatim>\<open>Play\<close> on a non-empty view sets the index to 0 before it does anything else.
\<close>

theorem Search_keeps_index:
  "CurrentTrack (Search lower q p) = CurrentTrack p \<and>
   (CurrentTrack p \<ge> int (length (FilteredTracks (Search lower q p))) \<longrightarrow>
      GetCurrentTrack (Search lower q p) = Inr None \<and>
      (FilteredTracks (Search lower q p) \<noteq> [] \<longrightarrow>
         Play env (Search lower q p) = Play env ((Search lower q p)\<lparr>CurrentTrack := 0\<rparr>)))"
proof -
  have "Play env (Search lower q p) = Play env ((Search lower q p)\<lparr>CurrentTrack := 0\<rparr>)"
    if "CurrentTrack p \<ge> int (length (FilteredTracks (Search lower q p)))"
      and "FilteredTracks (Search lower q p) \<noteq> []"
    using that by (intro Play_out_of_range) simp_all
  then show ?thesis
    by (simp add: GetCurrentTrack_def)
qed

theorem Search_keeps_index_witness:
  "CurrentTrack (example_player\<lparr>CurrentTrack := 2\<rparr>)
     \<ge> int (length (FilteredTracks (Search ToLower ''loose'' (example_player\<lparr>CurrentTrack := 2\<rparr>)))) \<and>
   FilteredTracks (Search ToLower ''loose'' (example_player\<lparr>CurrentTrack := 2\<rparr>)) \<noteq> [] \<and>
   CurrentTrack (Search ToLower ''loose'' (example_player\<lparr>CurrentTrack := 2\<rparr>)) = 2 \<and>
   GetCurrentTrack (Search ToLower ''loose'' (example_player\<lparr>CurrentTrack := 2\<rparr>)) = Inr None \<and>
   Play ok_env (Search ToLower ''loose'' (example_player\<lparr>CurrentTrack := 2\<rparr>)) =
     Play ok_env ((Search ToLower ''loose'' (example_player\<lparr>CurrentTrack := 2\<rparr>))\<lparr>CurrentTrack := 0\<rparr>)"
proof -
  let ?p = "example_player\<lparr>CurrentTrack := 2\<rparr>"
  have v: "FilteredTracks (Search ToLower ''loose'' ?p) = [loose]"
    by (simp add: Search_loose)
  have ix: "CurrentTrack ?p \<ge> int (length (FilteredTracks (Search ToLower ''loose'' ?p)))"
    by (simp add: v)
  have ne: "FilteredTracks (Search ToLower ''loose'' ?p) \<noteq> []"
    by (simp add: v)
  from Search_keeps_index [of ToLower "''loose''" ?p ok_env] ix ne
  show ?thesis by simp
qed

section \<open>The catalog is never written\<close>

lemma Play_Tracks:
  assumes "Play env p = Inr (e, p', tr)"
  shows "Tracks p' = Tracks p"
proof (cases e)
  case None
  with assms show ?thesis by (simp add: Play_success_state)
next
  case (Some err)
  show ?thesis
  proof (cases "FilteredTracks p = []")
    case True
    with assms show ?thesis by (simp add: Play_empty)
  next
    case ne: False
    show ?thesis
    proof (cases "State p \<noteq> Stopped \<and> Streamer p \<noteq> None \<and>
                  LoadedTrack p = CurrentTrack (reset_index p)")
      case True
      then consider "State p = Paused" | "State p = Playing" by (cases "State p") auto
      then show ?thesis
      proof cases
        case 1
        with True ne assms show ?thesis by (auto simp: Play_resume split: option.splits)
      next
        case 2
        with True ne assms show ?thesis by (auto simp: Play_noop)
      qed
    next
      case False
      from Play_load [OF ne False, of env] assms show ?thesis
        by (auto split: if_splits sum.splits prod.splits)
    qed
  qed
qed

lemma NextTrack_Tracks:
  assumes "NextTrack env p = Inr (e, p', tr)"
  shows "Tracks p' = Tracks p"
proof (cases "FilteredTracks p = []")
  case True
  with assms show ?thesis by (simp add: NextTrack_def)
next
  case False
  let ?q = "p\<lparr>CurrentTrack := wrap64 (CurrentTrack p + 1)\<rparr>"
  show ?thesis
  proof (cases "CurrentTrack ?q \<ge> int (length (FilteredTracks ?q))")
    case over: True
    show ?thesis
    proof (cases "Repeat p")
      case True
      with False over assms have "Play env (?q\<lparr>CurrentTrack := 0\<rparr>) = Inr (e, p', tr)"
        by (simp add: NextTrack_def Let_def)
      from Play_Tracks [OF this] show ?thesis by simp
    next
      case nr: False
      with False over assms show ?thesis
        by (auto simp: NextTrack_def Let_def)
    qed
  next
    case under: False
    with False assms have "Play env ?q = Inr (e, p', tr)"
      by (simp add: NextTrack_def Let_def)
    from Play_Tracks [OF this] show ?thesis by simp
  qed
qed

lemma PreviousTrack_Tracks:
  assumes "PreviousTrack env p = Inr (e, p', tr)"
  shows "Tracks p' = Tracks p"
proof (cases "FilteredTracks p = []")
  case True
  with assms show ?thesis by (simp add: PreviousTrack_def)
next
  case False
  let ?q = "p\<lparr>CurrentTrack := wrap64 (CurrentTrack p - 1)\<rparr>"
  show ?thesis
  proof (cases "CurrentTrack ?q < 0")
    case neg: True
    show ?thesis
    proof (cases "Repeat p")
      case True
      with False neg assms
      have "Play env (?q\<lparr>CurrentTrack := int (length (FilteredTracks ?q)) - 1\<rparr>) = Inr (e, p', tr)"
        by (simp add: PreviousTrack_def Let_def)
      from Play_Tracks [OF this] show ?thesis by simp
    next
      case nr: False
      with False neg assms show ?thesis
        by (auto simp: PreviousTrack_def Let_def)
    qed
  next
    case pos: False
    with False assms have "Play env ?q = Inr (e, p', tr)"
      by (simp add: PreviousTrack_def Let_def)
    from Play_Tracks [OF this] show ?thesis by simp
  qed
qed

lemma Play_example:
  "Play ok_env example_player =
     Inr (None, playing_player, [''music/RootArtistA/AlbumX/Song1.mp3''])"
  by (subst Play_ok_example) (simp_all add: playing_player_def example_player_def NewPlayer_def)

lemma NextTrack_example:
  "NextTrack ok_env (example_player\<lparr>CurrentTrack := 2\<rparr>) =
     Inr (Some (ErrorNew ''at the end''), example_player\<lparr>CurrentTrack := 2\<rparr>, [])"
  by (simp add: NextTrack_def Let_def wrap64_def)

lemma PreviousTrack_example:
  "PreviousTrack ok_env example_player =
     Inr (Some (ErrorNew ''at the beginning''), example_player, [])"
  by (simp add: PreviousTrack_def Let_def wrap64_def example_player_def NewPlayer_def)

text \<open>
  C10: every public operation leaves the catalog, the list \<^verbatim>\<open>Tracks\<close> with every record
  in it, as it was: \<^verbatim>\<open>Pause\<close>, \<^verbatim>\<open>Resume\<close>, \<^verbatim>\<open>Stop\<close>, \<^verbatim>\<open>ToggleRepeat\<close>, \<^verbatim>\<open>ToggleShuffle\<close>
  and \<^verbatim>\<open>Search\<close> in every state, and \<^verbatim>\<open>Play\<close>, \<^verbatim>\<open>NextTrack\<close> and \<^verbatim>\<open>PreviousTrack\<close>
  whenever they return, with an error or without. The view that \<^verbatim>\<open>Search\<close> builds is
  the catalog itself or a new list, and no operation writes an element of either.
\<close>

theorem catalog_unchanged:
  "Tracks (Pause p) = Tracks p \<and> Tracks (Resume p) = Tracks p \<and> Tracks (Stop p) = Tracks p \<and>
   Tracks (ToggleRepeat p) = Tracks p \<and> Tracks (ToggleShuffle p) = Tracks p \<and>
   Tracks (Search lower q p) = Tracks p \<and>
   (\<forall>e p' tr. Play env p = Inr (e, p', tr) \<longrightarrow> Tracks p' = Tracks p) \<and>
   (\<forall>e p' tr. NextTrack env p = Inr (e, p', tr) \<longrightarrow> Tracks p' = Tracks p) \<and>
   (\<forall>e p' tr. PreviousTrack env p = Inr (e, p', tr) \<longrightarrow> Tracks p' = Tracks p)"
proof -
  have "Tracks (Pause p) = Tracks p" "Tracks (Resume p) = Tracks p"
    by (simp_all add: Pause_def Resume_def split: option.split)
  moreover have "Tracks (Stop p) = Tracks p" "Tracks (ToggleRepeat p) = Tracks p"
    "Tracks (ToggleShuffle p) = Tracks p" "Tracks (Search lower q p) = Tracks p"
    by (simp_all add: Stop_def ToggleRepeat_def ToggleShuffle_def)
  ultimately show ?thesis
    using Play_Tracks NextTrack_Tracks PreviousTrack_Tracks by blast
qed

theorem catalog_unchanged_witness:
  "Play ok_env example_player =
     Inr (None, playing_player, [''music/RootArtistA/AlbumX/Song1.mp3'']) \<and>
   Tracks playing_player = Tracks example_player \<and>
   NextTrack ok_env (example_player\<lparr>CurrentTrack := 2\<rparr>) =
     Inr (Some (ErrorNew ''at the end''), example_player\<lparr>CurrentTrack := 2\<rparr>, []) \<and>
   PreviousTrack ok_env example_player =
     Inr (Some (ErrorNew ''at the beginning''), example_player, []) \<and>
   Tracks (Search ToLower ''loose'' example_player) = [song1, song2, loose] \<and>
   Tracks (Stop playing_player) = [song1, song2, loose]"
proof -
  from catalog_unchanged [of example_player ToLower "''loose''" ok_env] Play_example
  have a: "Tracks playing_player = Tracks example_player"
    and b: "Tracks (Search ToLower ''loose'' example_player) = Tracks example_player"
    by blast+
  from catalog_unchanged [of playing_player ToLower "''loose''" ok_env]
  have c: "Tracks (Stop playing_player) = Tracks playing_player"
    by blast
  from a b c Play_example NextTrack_example PreviousTrack_example show ?thesis
    by simp
qed

section \<open>Artist and album of a scanned file\<close>

lemma Split_sep_no_sep: "sep \<notin> set x \<Longrightarrow> Split_sep x sep = [x]"
  by (induction x) auto

lemma Split_sep_append:
  "sep \<notin> set x \<Longrightarrow> Split_sep (x @ sep # rest) sep = x # Split_sep rest sep"
  by (induction x) auto

lemma Join_sep_Cons:
  "ys \<noteq> [] \<Longrightarrow> Join_sep (x # ys) = x @ Separator # Join_sep ys"
  by (cases ys) simp_all

lemma Join_sep_snoc:
  "xs \<noteq> [] \<Longrightarrow> Join_sep (xs @ [f]) = Join_sep xs @ Separator # f"
proof (induction xs)
  case Nil
  then show ?case by simp
next
  case (Cons x xs)
  show ?case
  proof (cases "xs = []")
    case True
    then show ?thesis by simp
  next
    case False
    with Cons show ?thesis by (simp add: Join_sep_Cons)
  qed
qed

lemma Split_Join:
  assumes "xs \<noteq> []" "\<forall>x \<in> set xs. Separator \<notin> set x"
  shows "Split_sep (Join_sep xs) Separator = xs"
  using assms
proof (induction xs)
  case Nil
  then show ?case by simp
next
  case (Cons x xs)
  show ?case
  proof (cases "xs = []")
    case True
    with Cons.prems show ?thesis by (simp add: Split_sep_no_sep)
  next
    case False
    with Cons show ?thesis by (simp add: Join_sep_Cons Split_sep_append)
  qed
qed

lemma clean_step_plain: "plain x \<Longrightarrow> clean_step rooted out x = out @ [x]"
  by (simp add: clean_step_def plain_def)

lemma clean_plain_elements:
  "\<forall>x \<in> set xs. plain x \<Longrightarrow> foldl (clean_step rooted) out xs = out @ xs"
  by (induction xs arbitrary: out) (simp_all add: clean_step_plain)

lemma Join_sep_hd:
  "xs \<noteq> [] \<Longrightarrow> hd xs \<noteq> [] \<Longrightarrow> Join_sep xs \<noteq> [] \<and> hd (Join_sep xs) = hd (hd xs)"
  by (cases xs rule: Join_sep.cases) auto

lemma Clean_dir_prefix:
  assumes "xs \<noteq> []" "\<forall>x \<in> set xs. plain x"
  shows "Clean (Join_sep xs @ [Separator]) = Join_sep xs"
proof -
  have seps: "\<forall>x \<in> set xs. Separator \<notin> set x"
    using assms(2) by (simp add: plain_def)
  have hd1: "hd xs \<noteq> []" and hd2: "hd (hd xs) \<noteq> Separator"
    using assms by (cases xs; cases "hd xs"; auto simp: plain_def)+
  from Join_sep_hd [OF assms(1) hd1]
  have ne: "Join_sep xs \<noteq> []" and h: "hd (Join_sep xs) = hd (hd xs)" by simp_all
  have notrooted: "hd (Join_sep xs @ [Separator]) \<noteq> Separator"
    using ne h hd2 by simp
  have "Join_sep xs @ [Separator] = Join_sep (xs @ [[]])"
    using assms(1) by (simp add: Join_sep_snoc)
  moreover have "Split_sep (Join_sep (xs @ [[]])) Separator = xs @ [[]]"
    using seps by (intro Split_Join) auto
  ultimately have sp: "Split_sep (Join_sep xs @ [Separator]) Separator = xs @ [[]]"
    by simp
  have "foldl (clean_step False) [] (xs @ [[]]) = xs"
    using assms(2) by (simp add: clean_plain_elements clean_step_def)
  with sp notrooted ne show ?thesis
    by (simp add: Clean_def Let_def)
qed

lemma last_separator_prefix:
  assumes "Separator \<notin> set f"
  shows "rev (dropWhile (\<lambda>c. c \<noteq> Separator) (rev (pre @ Separator # f))) = pre @ [Separator]"
proof -
  have "dropWhile (\<lambda>c. c \<noteq> Separator) (rev f @ Separator # rev pre) = Separator # rev pre"
    using assms by (simp add: dropWhile_append)
  then show ?thesis by simp
qed

lemma Dir_below:
  assumes "xs \<noteq> []" "\<forall>x \<in> set xs. plain x" "Separator \<notin> set f"
  shows "Dir (Join_sep (xs @ [f])) = Join_sep xs"
proof -
  have "Dir (Join_sep (xs @ [f])) =
        Clean (rev (dropWhile (\<lambda>c. c \<noteq> Separator) (rev (Join_sep xs @ Separator # f))))"
    by (simp only: Dir_def Join_sep_snoc [OF assms(1)])
  also have "\<dots> = Clean (Join_sep xs @ [Separator])"
    by (simp only: last_separator_prefix [OF assms(3)])
  also have "\<dots> = Join_sep xs"
    using assms(1,2) by (rule Clean_dir_prefix)
  finally show ?thesis .
qed

lemma Dir_file:
  assumes "Separator \<notin> set f"
  shows "Dir f = ''.''"
proof -
  have "dropWhile (\<lambda>c. c \<noteq> Separator) (rev f) = []"
    using assms by auto
  then show ?thesis by (simp add: Dir_def Clean_def)
qed

lemma parts_below:
  assumes "xs \<noteq> []" "\<forall>x \<in> set xs. plain x" "Separator \<notin> set f"
  shows "Split_sep (Dir (Join_sep (xs @ [f]))) Separator = xs"
proof -
  have "\<forall>x \<in> set xs. Separator \<notin> set x"
    using assms(2) by (simp add: plain_def)
  with assms show ?thesis
    by (simp add: Dir_below Split_Join)
qed

lemma extractMetadata_two_levels:
  assumes "plain a" "plain b" "\<forall>x \<in> set ds. plain x" "Separator \<notin> set f"
    and "rel (MusicDir p) (Path t) = Inr (Join_sep (a # b # ds @ [f]))"
  shows "Artist (extractMetadata rel p t) = a \<and> Album (extractMetadata rel p t) = b \<and>
         Path (extractMetadata rel p t) = Path t"
proof -
  have "Split_sep (Dir (Join_sep ((a # b # ds) @ [f]))) Separator = a # b # ds"
    using assms(1-4) by (intro parts_below) simp_all
  then show ?thesis
    using assms(5) by (simp add: extractMetadata_def Let_def)
qed

lemma extractMetadata_one_level:
  assumes "plain a" "Separator \<notin> set f"
    and "rel (MusicDir p) (Path t) = Inr (Join_sep [a, f])"
  shows "Artist (extractMetadata rel p t) = a \<and> Album (extractMetadata rel p t) = Album t"
proof -
  have "Split_sep (Dir (Join_sep ([a] @ [f]))) Separator = [a]"
    using assms(1,2) by (intro parts_below) simp_all
  then show ?thesis
    using assms(1,3) by (simp add: extractMetadata_def Let_def plain_def)
qed

lemma extractMetadata_under_root:
  assumes "Separator \<notin> set f" and "rel (MusicDir p) (Path t) = Inr f"
  shows "Artist (extractMetadata rel p t) = Artist t \<and> Album (extractMetadata rel p t) = Album t"
proof -
  have "Split_sep (Dir f) Separator = [''.'']"
    using assms(1) by (simp add: Dir_file Separator_def)
  then show ?thesis
    using assms(2) by (simp add: extractMetadata_def Let_def)
qed

lemma visit_file:
  assumes "formats (ToLower (Ext path))"
  shows "visit rel p path False None =
    (None, p\<lparr>Tracks := Tracks p @
       [extractMetadata rel p
          \<lparr>Path = path, Title = Base path, Artist = [], Album = [], Duration = 0,
           TrackFormat = ToLower (Ext path)\<rparr>]\<rparr>)"
  using assms by (simp add: visit_def Let_def)

lemma visit_song1:
  "visit rel_below (NewPlayer ''music'') ''music/RootArtistA/AlbumX/Song1.mp3'' False None =
     (None, (NewPlayer ''music'')\<lparr>Tracks := [song1]\<rparr>)"
  by code_simp

lemma visit_loose:
  "visit rel_below ((NewPlayer ''music'')\<lparr>Tracks := [song1, song2]\<rparr>) ''music/loose.mp3'' False None =
     (None, (NewPlayer ''music'')\<lparr>Tracks := [song1, song2, loose]\<rparr>)"
  by code_simp

lemma visit_directory:
  "visit rel_below (NewPlayer ''music'') ''music/RootArtistA'' True None =
     (None, NewPlayer ''music'')"
  by code_simp

lemma visit_other_file:
  "visit rel_below (NewPlayer ''music'') ''music/RootArtistA/cover.jpg'' False None =
     (None, NewPlayer ''music'')"
  by code_simp

text \<open>
  Two further runs of \<open>visit\<close>: below three directories the artist and the album are
  the first two directories from the music directory, and below a single directory that
  directory is the artist and the album stays empty.
\<close>

lemma visit_three_levels:
  "visit rel_below (NewPlayer ''music'') ''music/A/B/C/Song.MP3'' False None =
     (None, (NewPlayer ''music'')\<lparr>Tracks :=
        [\<lparr>Path = ''music/A/B/C/Song.MP3'', Title = ''Song'', Artist = ''A'', Album = ''B'',
          Duration = 0, TrackFormat = ''.mp3''\<rparr>]\<rparr>)"
  by code_simp

lemma visit_one_level:
  "visit rel_below (NewPlayer ''music'') ''music/A/Song.wav'' False None =
     (None, (NewPlayer ''music'')\<lparr>Tracks :=
        [\<lparr>Path = ''music/A/Song.wav'', Title = ''Song'', Artist = ''A'', Album = [],
          Duration = 0, TrackFormat = ''.wav''\<rparr>]\<rparr>)"
  by code_simp

lemma visit_song_wav:
  "formats (ToLower (Ext ''music/A/Song.wav''))" "plain ''A''"
  "rel_below ''music'' ''music/A/Song.wav'' = Inr (Join_sep [''A'', ''Song.wav''])"
  by code_simp+

text \<open>
  C7: a file that \<^verbatim>\<open>ScanMusicFiles\<close> accepts becomes one track appended to the catalog,
  and its artist and album are read off the directories of its path relative to the music
  directory, counted from the music directory downwards. When there are two or more
  directories above the file, the first of them is the artist and the second is the
  album; directories further down, between the second and the file, play no part (so the
  artist and the album are the two directories nearest to the root, not the two nearest
  to the file). When there is exactly one directory above the file, that directory is
  the artist and the album is empty. When the file lies directly under the music
  directory, the artist and the album are both empty. In the scenario of the
  specification, \<^verbatim>\<open>RootArtistA/AlbumX/Song1.mp3\<close> gets the artist \<^verbatim>\<open>RootArtistA\<close> and the
  album \<^verbatim>\<open>AlbumX\<close>, and \<^verbatim>\<open>loose.mp3\<close> gets neither. The relative path of a scanned
  file is a list of plain names joined by the separator, so the three cases are all there
  are.
\<close>

theorem scanned_file_artist_album:
  assumes "formats (ToLower (Ext path))"
  shows
    "(plain a \<and> plain b \<and> (\<forall>x \<in> set ds. plain x) \<and> Separator \<notin> set f \<and>
      rel (MusicDir p) path = Inr (Join_sep (a # b # ds @ [f])) \<longrightarrow>
        (\<exists>t. visit rel p path False None = (None, p\<lparr>Tracks := Tracks p @ [t]\<rparr>) \<and>
             Path t = path \<and> Artist t = a \<and> Album t = b)) \<and>
     (plain a \<and> Separator \<notin> set f \<and> rel (MusicDir p) path = Inr (Join_sep [a, f]) \<longrightarrow>
        (\<exists>t. visit rel p path False None = (None, p\<lparr>Tracks := Tracks p @ [t]\<rparr>) \<and>
             Path t = path \<and> Artist t = a \<and> Album t = [])) \<and>
     (Separator \<notin> set f \<and> rel (MusicDir p) path = Inr f \<longrightarrow>
        (\<exists>t. visit rel p path False None = (None, p\<lparr>Tracks := Tracks p @ [t]\<rparr>) \<and>
             Path t = path \<and> Artist t = [] \<and> Album t = []))"
proof -
  let ?t0 = "\<lparr>Path = path, Title = Base path, Artist = [], Album = [], Duration = 0,
              TrackFormat = ToLower (Ext path)\<rparr>"
  have v: "visit rel p path False None =
             (None, p\<lparr>Tracks := Tracks p @ [extractMetadata rel p ?t0]\<rparr>)"
    using assms by (rule visit_file)
  have pth: "Path (extractMetadata rel p ?t0) = path"
    by (simp add: extractMetadata_def Let_def)
  have two: "Artist (extractMetadata rel p ?t0) = a \<and> Album (extractMetadata rel p ?t0) = b"
    if "plain a" "plain b" "\<forall>x \<in> set ds. plain x" "Separator \<notin> set f"
      "rel (MusicDir p) path = Inr (Join_sep (a # b # ds @ [f]))"
    using extractMetadata_two_levels [of a b ds f rel p ?t0] that by simp
  have one: "Artist (extractMetadata rel p ?t0) = a \<and> Album (extractMetadata rel p ?t0) = []"
    if "plain a" "Separator \<notin> set f" "rel (MusicDir p) path = Inr (Join_sep [a, f])"
    using extractMetadata_one_level [of a f rel p ?t0] that by simp
  have none: "Artist (extractMetadata rel p ?t0) = [] \<and> Album (extractMetadata rel p ?t0) = []"
    if "Separator \<notin> set f" "rel (MusicDir p) path = Inr f"
    using extractMetadata_under_root [of f rel p ?t0] that by simp
  from v pth two one none show ?thesis by blast
qed

theorem scanned_file_artist_album_witness:
  "formats (ToLower (Ext ''music/RootArtistA/AlbumX/Song1.mp3'')) \<and>
   formats (ToLower (Ext ''music/A/Song.wav'')) \<and>
   formats (ToLower (Ext ''music/loose.mp3'')) \<and>
   plain ''RootArtistA'' \<and> plain ''AlbumX'' \<and> plain ''A'' \<and>
   rel_below ''music'' ''music/RootArtistA/AlbumX/Song1.mp3'' =
     Inr (Join_sep [''RootArtistA'', ''AlbumX'', ''Song1.mp3'']) \<and>
   rel_below ''music'' ''music/A/Song.wav'' = Inr (Join_sep [''A'', ''Song.wav'']) \<and>
   rel_below ''music'' ''music/loose.mp3'' = Inr ''loose.mp3'' \<and>
   (\<exists>t. visit rel_below (NewPlayer ''music'') ''music/RootArtistA/AlbumX/Song1.mp3'' False None =
          (None, (NewPlayer ''music'')\<lparr>Tracks := Tracks (NewPlayer ''music'') @ [t]\<rparr>) \<and>
        Artist t = ''RootArtistA'' \<and> Album t = ''AlbumX'') \<and>
   (\<exists>t. visit rel_below (NewPlayer ''music'') ''music/A/Song.wav'' False None =
          (None, (NewPlayer ''music'')\<lparr>Tracks := Tracks (NewPlayer ''music'') @ [t]\<rparr>) \<and>
        Artist t = ''A'' \<and> Album t = []) \<and>
   (\<exists>t. visit rel_below (NewPlayer ''music'') ''music/loose.mp3'' False None =
          (None, (NewPlayer ''music'')\<lparr>Tracks := Tracks (NewPlayer ''music'') @ [t]\<rparr>) \<and>
        Artist t = [] \<and> Album t = [])"
proof -
  have f1: "formats (ToLower (Ext ''music/RootArtistA/AlbumX/Song1.mp3''))"
    and f2: "formats (ToLower (Ext ''music/loose.mp3''))"
    by code_simp+
  have f3: "formats (ToLower (Ext ''music/A/Song.wav''))"
    by (rule visit_song_wav)
  have pl: "plain ''RootArtistA''" "plain ''AlbumX''" "\<forall>x \<in> set ([] :: string list). plain x"
    and pa: "plain ''A''"
    and s1: "Separator \<notin> set ''Song1.mp3''" and s2: "Separator \<notin> set ''loose.mp3''"
    and s3: "Separator \<notin> set ''Song.wav''"
    by (simp_all add: plain_def Separator_def)
  have r1: "rel_below (MusicDir (NewPlayer ''music'')) ''music/RootArtistA/AlbumX/Song1.mp3'' =
      Inr (Join_sep (''RootArtistA'' # ''AlbumX'' # [] @ [''Song1.mp3'']))"
    by (simp add: rel_below_def NewPlayer_def Separator_def)
  have r2: "rel_below (MusicDir (NewPlayer ''music'')) ''music/loose.mp3'' = Inr ''loose.mp3''"
    by (simp add: rel_below_def NewPlayer_def Separator_def)
  have r3: "rel_below (MusicDir (NewPlayer ''music'')) ''music/A/Song.wav'' =
      Inr (Join_sep [''A'', ''Song.wav''])"
    by (simp add: rel_below_def NewPlayer_def Separator_def)
  from scanned_file_artist_album [OF f1, of "''RootArtistA''" "''AlbumX''" "[]" "''Song1.mp3''"
      rel_below "NewPlayer ''music''"] pl s1 r1
  have w1: "\<exists>t. visit rel_below (NewPlayer ''music'') ''music/RootArtistA/AlbumX/Song1.mp3'' False None =
          (None, (NewPlayer ''music'')\<lparr>Tracks := Tracks (NewPlayer ''music'') @ [t]\<rparr>) \<and>
        Artist t = ''RootArtistA'' \<and> Album t = ''AlbumX''"
    by blast
  from scanned_file_artist_album [OF f2, of _ _ _ "''loose.mp3''" rel_below "NewPlayer ''music''"]
    s2 r2
  have w2: "\<exists>t. visit rel_below (NewPlayer ''music'') ''music/loose.mp3'' False None =
          (None, (NewPlayer ''music'')\<lparr>Tracks := Tracks (NewPlayer ''music'') @ [t]\<rparr>) \<and>
        Artist t = [] \<and> Album t = []"
    by blast
  from scanned_file_artist_album [OF f3, of "''A''" _ _ "''Song.wav''" rel_below
      "NewPlayer ''music''"] pa s3 r3
  have w3: "\<exists>t. visit rel_below (NewPlayer ''music'') ''music/A/Song.wav'' False None =
          (None, (NewPlayer ''music'')\<lparr>Tracks := Tracks (NewPlayer ''music'') @ [t]\<rparr>) \<and>
        Artist t = ''A'' \<and> Album t = []"
    by blast
  from f1 f2 f3 pl pa r1 r2 r3 w1 w2 w3 show ?thesis
    by (simp add: NewPlayer_def)
qed

section \<open>The empty query\<close>

text \<open>
  C9: for every catalog, \<^verbatim>\<open>Search\<close> with the empty query makes the Filtered View equal
  to the full catalog, the same elements in the same order.
\<close>

theorem Search_empty_query_is_catalog:
  "FilteredTracks (Search lower [] p) = Tracks p"
  by (simp add: Search_def)

end
